theory Spec2Isabelle
  imports Complex_Main
begin

section \<open>Data model\<close>

text \<open>
  The solver works on C arrays reached through pointers. An array is modelled as a total
  function from the C index to the element; an index is a C \<open>int\<close>, modelled as an
  unbounded \<open>int\<close> (signed overflow is undefined in C and no property below depends on
  it). A \<open>double\<close> is modelled as a \<open>real\<close>, and only the finite doubles are modelled:
  the functions of a model return real numbers. The sums, the quotient and the logarithm
  of the Markov chain are exact in the model; what is proved of the Markov chain depends
  on the comparisons that the code makes and holds for every value of the cached rates.
  The two products of doubles in \<open>SimInf_sample_select\<close> decide how many individuals are
  sampled and the return value, so they are not taken to be exact: the product of two
  doubles is the parameter \<open>double_mul\<close> below.
\<close>

type_synonym 'a array = "int \<Rightarrow> 'a"

text \<open>The error codes of \<open>SimInf.h\<close>; \<open>PTS_FUN_ERROR rc\<close> is a negative return value
  \<open>rc\<close> of the model's post time step callback, which the solver stores as its error
  code. An \<open>errcode\<close> of 0 is \<open>None\<close>.\<close>

datatype error =
    SIMINF_ERR_NEGATIVE_STATE
  | SIMINF_ERR_ALLOC_MEMORY_BUFFER
  | SIMINF_UNDEFINED_EVENT
  | SIMINF_ERR_SAMPLE_SELECT
  | SIMINF_ERR_INVALID_RATE
  | PTS_FUN_ERROR int

text \<open>The event types (the \<open>enum\<close> of \<open>SimInf_solver_ssa.c\<close>).\<close>

definition EXIT_EVENT :: int where "EXIT_EVENT = 0"
definition ENTER_EVENT :: int where "ENTER_EVENT = 1"
definition INTERNAL_TRANSFER_EVENT :: int where "INTERNAL_TRANSFER_EVENT = 2"
definition EXTERNAL_TRANSFER_EVENT :: int where "EXTERNAL_TRANSFER_EVENT = 3"

text \<open>
  The random number generator belongs to the GNU Scientific Library, not to this
  repository. Its functions are parameters of the model: a sampling function takes the
  state of the generator and returns the draw and the next state; \<open>gsl_rng_set\<close> gives
  the state of a generator (\<open>gsl_rng_mt19937\<close>) that has been allocated and seeded.
\<close>

record 'g gsl_rng_ops =
  gsl_rng_uniform_pos :: "'g \<Rightarrow> real \<times> 'g"
  gsl_ran_hypergeometric :: "'g \<Rightarrow> int \<Rightarrow> int \<Rightarrow> int \<Rightarrow> int \<times> 'g"
  gsl_rng_set :: "int \<Rightarrow> 'g"
  gsl_rng_uniform_int :: "'g \<Rightarrow> int \<Rightarrow> int \<times> 'g"
  gsl_rng_max :: "'g \<Rightarrow> int"
  double_mul :: "real \<Rightarrow> real \<Rightarrow> real"

text \<open>
  The last field is not of the GSL: \<open>double_mul x y\<close> is the value of the C expression
  \<open>x * y\<close> for two doubles, that is the product rounded to a double. It is a parameter
  like the generator, so that what is proved holds for the rounding of the machine,
  whatever it is. In \<open>proportion * Nindividuals\<close> and \<open>gsl_rng_uniform_pos(rng) *
  Nindividuals\<close> the \<open>int\<close> is first converted to a double, which is exact.
\<close>

text \<open>C's \<open>round\<close>: to the nearest integer, halfway cases away from zero.\<close>

definition C_round :: "real \<Rightarrow> int" where
  "C_round x = (if 0 \<le> x then \<lfloor>x + 1 / 2\<rfloor> else \<lceil>x - 1 / 2\<rceil>)"

section \<open>Sampling individuals from a node: \<open>SimInf_sample_select\<close>\<close>

text \<open>\<open>memset(individuals, 0, Nc * sizeof(int))\<close>\<close>

definition memset0 :: "int array \<Rightarrow> int \<Rightarrow> int array" where
  "memset0 a Nc = (\<lambda>c. if 0 \<le> c \<and> c < Nc then 0 else a c)"

text \<open>\<open>memcpy(u_tmp, &u[node * Nc], Nc * sizeof(int))\<close>\<close>

definition memcpy_node :: "int array \<Rightarrow> int array \<Rightarrow> int \<Rightarrow> int \<Rightarrow> int array" where
  "memcpy_node u_tmp u node Nc =
     (\<lambda>c. if 0 \<le> c \<and> c < Nc then u (node * Nc + c) else u_tmp c)"

text \<open>The first loop: count the states with individuals (\<open>Nkinds\<close>) and the
  individuals (\<open>Nindividuals\<close>) over the select column \<open>i = jcE[select] ..< jcE[select + 1]\<close>.\<close>

function count_individuals ::
  "int array \<Rightarrow> int \<Rightarrow> int array \<Rightarrow> int \<Rightarrow> int \<Rightarrow> int \<Rightarrow> int \<times> int \<Rightarrow> int \<times> int" where
  "count_individuals irE Nc u node i hi (Nindividuals, Nkinds) =
     (if i < hi then
        (let nk = u (node * Nc + irE i)
         in count_individuals irE Nc u node (i + 1) hi
              (Nindividuals + nk, if nk > 0 then Nkinds + 1 else Nkinds))
      else (Nindividuals, Nkinds))"
  by pat_completeness auto
termination
  by (relation "measure (\<lambda>(irE, Nc, u, node, i, hi, acc). nat (hi - i))") auto

text \<open>\<open>Nindividuals == n\<close>: include all individuals.\<close>

function include_all ::
  "int array \<Rightarrow> int \<Rightarrow> int array \<Rightarrow> int \<Rightarrow> int \<Rightarrow> int \<Rightarrow> int array \<Rightarrow> int array" where
  "include_all irE Nc u node i hi individuals =
     (if i < hi then
        include_all irE Nc u node (i + 1) hi (individuals(irE i := u (node * Nc + irE i)))
      else individuals)"
  by pat_completeness auto
termination
  by (relation "measure (\<lambda>(irE, Nc, u, node, i, hi, ind). nat (hi - i))") auto

text \<open>\<open>Nkinds == 1\<close>: the first state of the column that has individuals takes all
  \<open>n\<close>, and the loop breaks.\<close>

function one_kind ::
  "int array \<Rightarrow> int \<Rightarrow> int array \<Rightarrow> int \<Rightarrow> int \<Rightarrow> int \<Rightarrow> int \<Rightarrow> int array \<Rightarrow> int array" where
  "one_kind irE Nc u node n i hi individuals =
     (if i < hi then
        (if u (node * Nc + irE i) > 0 then individuals(irE i := n)
         else one_kind irE Nc u node n (i + 1) hi individuals)
      else individuals)"
  by pat_completeness auto
termination
  by (relation "measure (\<lambda>(irE, Nc, u, node, n, i, hi, ind). nat (hi - i))") auto

text \<open>The search of the urn draw:
  \<^verbatim>\<open>for (i = jcE[select], cum = u_tmp[irE[i]]; i < jcE[select + 1] && rand > cum;
       i++, cum += u_tmp[irE[i]]);\<close>\<close>

function urn_search ::
  "int array \<Rightarrow> int array \<Rightarrow> int \<Rightarrow> real \<Rightarrow> int \<Rightarrow> real \<Rightarrow> int" where
  "urn_search irE u_tmp hi rand i cum =
     (if i < hi \<and> rand > cum then
        urn_search irE u_tmp hi rand (i + 1) (cum + real_of_int (u_tmp (irE (i + 1))))
      else i)"
  by pat_completeness auto
termination
  by (relation "measure (\<lambda>(irE, u_tmp, hi, rand, i, cum). nat (hi - i))") auto

text \<open>The loop \<open>while (n > 0)\<close> that samples \<open>n\<close> individuals one at a time.\<close>

function urn_loop ::
  "'g gsl_rng_ops \<Rightarrow> int array \<Rightarrow> int \<Rightarrow> int \<Rightarrow> int \<Rightarrow> int \<Rightarrow>
   int array \<times> int array \<times> 'g \<Rightarrow> int array \<times> int array \<times> 'g" where
  "urn_loop ops irE lo hi Nindividuals n (individuals, u_tmp, rng) =
     (if n > 0 then
        (let (r, rng) = gsl_rng_uniform_pos ops rng;
             rand = double_mul ops r (real_of_int Nindividuals);
             i = urn_search irE u_tmp hi rand lo (real_of_int (u_tmp (irE lo)));
             u_tmp = u_tmp(irE i := u_tmp (irE i) - 1);
             individuals = individuals(irE i := individuals (irE i) + 1)
         in urn_loop ops irE lo hi (Nindividuals - 1) (n - 1) (individuals, u_tmp, rng))
      else (individuals, u_tmp, rng))"
  by pat_completeness auto
termination
  by (relation "measure (\<lambda>(ops, irE, lo, hi, Nind, n, st). nat n)")
     (auto split: prod.splits)

declare count_individuals.simps [simp del] include_all.simps [simp del]
  one_kind.simps [simp del] urn_search.simps [simp del] urn_loop.simps [simp del]

text \<open>The function returns its error code; the vectors \<open>individuals\<close> and \<open>u_tmp\<close> and
  the generator, which it reaches through pointers, are returned with it.\<close>

definition SimInf_sample_select ::
  "'g gsl_rng_ops \<Rightarrow> int array \<Rightarrow> int array \<Rightarrow> int \<Rightarrow> int array \<Rightarrow> int \<Rightarrow> int \<Rightarrow> int \<Rightarrow> real \<Rightarrow>
   int array \<Rightarrow> int array \<Rightarrow> 'g \<Rightarrow> error option \<times> int array \<times> int array \<times> 'g" where
  "SimInf_sample_select ops irE jcE Nc u node select n proportion individuals u_tmp rng =
     (let individuals = memset0 individuals Nc;
          (Nindividuals, Nkinds) =
             count_individuals irE Nc u node (jcE select) (jcE (select + 1)) (0, 0);
          Nstates = jcE (select + 1) - jcE select;
          n = (if n = 0 then C_round (double_mul ops proportion (real_of_int Nindividuals))
               else n)
      in if Nstates \<le> 0 \<or> n > Nindividuals \<or> n < 0 then
           (Some SIMINF_ERR_SAMPLE_SELECT, individuals, u_tmp, rng)
         else if n = 0 then (None, individuals, u_tmp, rng)
         else if Nindividuals = n then
           (None, include_all irE Nc u node (jcE select) (jcE (select + 1)) individuals,
            u_tmp, rng)
         else if Nstates = 1 then (None, individuals(irE (jcE select) := n), u_tmp, rng)
         else if Nkinds = 1 then
           (None, one_kind irE Nc u node n (jcE select) (jcE (select + 1)) individuals,
            u_tmp, rng)
         else if Nstates = 2 then
           (let i = jcE select;
                (h, rng) = gsl_ran_hypergeometric ops rng
                             (u (node * Nc + irE i)) (u (node * Nc + irE (i + 1))) n;
                individuals = individuals(irE i := h);
                individuals = individuals(irE (i + 1) := n - individuals (irE i))
            in (None, individuals, u_tmp, rng))
         else
           (let u_tmp = memcpy_node u_tmp u node Nc;
                (individuals, u_tmp, rng) =
                   urn_loop ops irE (jcE select) (jcE (select + 1)) Nindividuals n
                     (individuals, u_tmp, rng)
            in (None, individuals, u_tmp, rng)))"

subsection \<open>The notions of the specification of the sampler\<close>

text \<open>The select column \<open>select\<close> of the matrix E is the index range
  \<open>jcE[select] ..< jcE[select + 1]\<close> of \<open>irE\<close>; its length is K and \<open>irE\<close> lists
  the compartments \<open>c_i\<close> on it.\<close>

definition select_column :: "int array \<Rightarrow> int \<Rightarrow> int set" where
  "select_column jcE select = {jcE select..<jcE (select + 1)}"

text \<open>X, the number of individuals of the node in the compartments of the column.\<close>

definition select_total :: "int array \<Rightarrow> int array \<Rightarrow> int \<Rightarrow> int array \<Rightarrow> int \<Rightarrow> int \<Rightarrow> int" where
  "select_total irE jcE Nc u node select =
     (\<Sum>i\<in>select_column jcE select. u (node * Nc + irE i))"

text \<open>The number of individuals that the code samples: when the argument \<open>n\<close> is 0,
  C's \<open>round\<close> of the product of doubles \<open>proportion * X\<close>; the argument \<open>n\<close> otherwise.\<close>

definition n_actual ::
  "'g gsl_rng_ops \<Rightarrow> int array \<Rightarrow> int array \<Rightarrow> int \<Rightarrow> int array \<Rightarrow> int \<Rightarrow> int \<Rightarrow> int \<Rightarrow>
   real \<Rightarrow> int" where
  "n_actual ops irE jcE Nc u node select n proportion =
     (if n = 0
      then C_round (double_mul ops proportion
                      (real_of_int (select_total irE jcE Nc u node select)))
      else n)"

text \<open>A column of a column-compressed matrix lists each row once, and the rows of E are
  compartments.\<close>

definition select_wf :: "int array \<Rightarrow> int array \<Rightarrow> int \<Rightarrow> int \<Rightarrow> bool" where
  "select_wf irE jcE Nc select \<longleftrightarrow>
     inj_on irE (select_column jcE select) \<and>
     (\<forall>i\<in>select_column jcE select. 0 \<le> irE i \<and> irE i < Nc)"

text \<open>What the GSL documents of its generator: \<open>gsl_rng_uniform_pos\<close> returns a number
  of the open interval (0, 1), and \<open>gsl_ran_hypergeometric (n1, n2, t)\<close> the number of
  elements of the first kind among \<open>t\<close> elements taken without replacement from \<open>n1\<close>
  of the first kind and \<open>n2\<close> of the second.\<close>

definition gsl_rng_contract :: "'g gsl_rng_ops \<Rightarrow> bool" where
  "gsl_rng_contract ops \<longleftrightarrow>
     (\<forall>g. 0 < fst (gsl_rng_uniform_pos ops g) \<and> fst (gsl_rng_uniform_pos ops g) < 1) \<and>
     (\<forall>g n1 n2 t. 0 \<le> n1 \<longrightarrow> 0 \<le> n2 \<longrightarrow> 0 \<le> t \<longrightarrow> t \<le> n1 + n2 \<longrightarrow>
        0 \<le> fst (gsl_ran_hypergeometric ops g n1 n2 t) \<and>
        t - n2 \<le> fst (gsl_ran_hypergeometric ops g n1 n2 t) \<and>
        fst (gsl_ran_hypergeometric ops g n1 n2 t) \<le> n1 \<and>
        fst (gsl_ran_hypergeometric ops g n1 n2 t) \<le> t)"

text \<open>What the rounding of the machine gives for the product of the urn draw: the product
  of a draw of (0, 1) and an \<open>int\<close> \<open>n > 0\<close> is positive and at most \<open>n\<close>, since \<open>n\<close>
  is a double and the rounding is monotone.\<close>

definition double_mul_contract :: "'g gsl_rng_ops \<Rightarrow> bool" where
  "double_mul_contract ops \<longleftrightarrow>
     (\<forall>g n. 0 < n \<longrightarrow>
        0 < double_mul ops (fst (gsl_rng_uniform_pos ops g)) (real_of_int n) \<and>
        double_mul ops (fst (gsl_rng_uniform_pos ops g)) (real_of_int n) \<le> real_of_int n)"

subsection \<open>Concrete inputs\<close>

text \<open>The array that holds the elements of a list, and 0 elsewhere.\<close>

definition array_of :: "int list \<Rightarrow> int array" where
  "array_of xs = (\<lambda>i. if 0 \<le> i \<and> i < int (length xs) then xs ! nat i else 0)"

text \<open>A generator whose every uniform draw is \<open>r\<close> and whose hypergeometric draw takes
  as few elements of the first kind as possible. Its product of doubles is the product:
  it is applied below to doubles whose product is a double.\<close>

definition rng_const :: "real \<Rightarrow> unit gsl_rng_ops" where
  "rng_const r = \<lparr>gsl_rng_uniform_pos = (\<lambda>g. (r, g)),
                 gsl_ran_hypergeometric = (\<lambda>g n1 n2 t. (max 0 (t - n2), g)),
                 gsl_rng_set = (\<lambda>seed. ()),
                 gsl_rng_uniform_int = (\<lambda>g n. (0, g)),
                 gsl_rng_max = (\<lambda>g. 4294967295),
                 double_mul = (\<lambda>x y. x * y)\<rparr>"

text \<open>The number of individuals that a call has sampled: the sum of \<open>individuals\<close> over
  the compartments of the select column.\<close>

definition sampled_total :: "int array \<Rightarrow> int array \<Rightarrow> int \<Rightarrow> int array \<Rightarrow> int" where
  "sampled_total irE jcE select individuals =
     (\<Sum>i\<in>select_column jcE select. individuals (irE i))"

section \<open>The state of the solver\<close>

text \<open>
  \<open>SimInf_scheduled_events\<close>: a queue of events, one array per field. The field names of
  the C structures carry a prefix here (\<open>ev_\<close>, \<open>sa_\<close>, \<open>sh_\<close>), since a field of a record
  is a constant of the theory.
\<close>

record SimInf_scheduled_events =
  ev_len :: int
  ev_event :: "int array"
  ev_time :: "int array"
  ev_node :: "int array"
  ev_dest :: "int array"
  ev_n :: "int array"
  ev_proportion :: "real array"
  ev_select :: "int array"
  ev_shift :: "int array"

text \<open>
  The memory that the threads share: the compartment state \<open>uu\<close>, the vector
  \<open>update_node\<close>, the two buffers \<open>vv_1\<close> and \<open>vv_2\<close> of the continuous state, and the
  output (the dense matrices \<open>U\<close> and \<open>V\<close>, or the values \<open>prU\<close> and \<open>prV\<close> of the sparse
  ones).
\<close>

datatype vbuf = VV_1 | VV_2

record shared =
  sh_uu :: "int array"
  sh_update_node :: "int array"
  sh_vv :: "vbuf \<Rightarrow> real array"
  sh_U :: "int array"
  sh_V :: "real array"
  sh_prU :: "real array"
  sh_prV :: "real array"

text \<open>
  \<open>SimInf_thread_args\<close>. A pointer into a shared array that the solver writes is the
  offset of the pointer in that array: \<open>sa_u = Ni * Nc\<close> is \<open>&uu[Ni * Nc]\<close>,
  \<open>sa_update_node = Ni\<close> is \<open>&update_node[Ni]\<close>, and \<open>sa_v\<close>, \<open>sa_v_new\<close> name the buffer
  and the offset in it. \<open>sa_U\<close> and \<open>sa_V\<close> tell whether the pointers \<open>U\<close> and \<open>V\<close> to the
  dense output are non-null. An array that the run only reads (the sparse matrices, \<open>N\<close>,
  \<open>tspan\<close>, \<open>ldata\<close>, \<open>gdata\<close>) or that one thread owns (\<open>t_rate\<close>, \<open>sum_t_rate\<close>,
  \<open>t_time\<close>, \<open>individuals\<close>, \<open>u_tmp\<close>, the event queues) is held by value.

  A transition rate function takes the pointers \<open>u\<close>, \<open>v\<close>, \<open>ldata\<close>, \<open>gdata\<close> and the
  time; the post time step function takes \<open>v_new\<close>, \<open>u\<close>, \<open>v\<close>, \<open>ldata\<close>, \<open>gdata\<close>, the
  node and the time, and returns its code with the \<open>v_new\<close> it has written. A pointer
  handed to a callback is the array seen from that pointer.
\<close>

type_synonym TRFun = "int array \<Rightarrow> real array \<Rightarrow> real array \<Rightarrow> real array \<Rightarrow> real \<Rightarrow> real"
type_synonym PTSFun =
  "real array \<Rightarrow> int array \<Rightarrow> real array \<Rightarrow> real array \<Rightarrow> real array \<Rightarrow> int \<Rightarrow> real \<Rightarrow>
   int \<times> real array"

record 'g SimInf_thread_args =
  sa_rng :: 'g
  sa_Ntot :: int
  sa_Ni :: int
  sa_Nn :: int
  sa_Nt :: int
  sa_Nc :: int
  sa_Nd :: int
  sa_Nld :: int
  sa_irG :: "int array"
  sa_jcG :: "int array"
  sa_irS :: "int array"
  sa_jcS :: "int array"
  sa_prS :: "int array"
  sa_irE :: "int array"
  sa_jcE :: "int array"
  sa_tr_fun :: "int \<Rightarrow> TRFun"
  sa_pts_fun :: PTSFun
  sa_tt :: real
  sa_next_day :: real
  sa_tspan :: "real array"
  sa_tlen :: int
  sa_U_it :: int
  sa_V_it :: int
  sa_N :: "int array"
  sa_U :: bool
  sa_irU :: "int array"
  sa_jcU :: "int array"
  sa_u :: int
  sa_V :: bool
  sa_irV :: "int array"
  sa_jcV :: "int array"
  sa_v :: "vbuf \<times> int"
  sa_v_new :: "vbuf \<times> int"
  sa_ldata :: "real array"
  sa_gdata :: "real array"
  sa_update_node :: int
  sa_E1 :: SimInf_scheduled_events
  sa_E1_index :: int
  sa_E2 :: SimInf_scheduled_events
  sa_E2_index :: int
  sa_individuals :: "int array"
  sa_u_tmp :: "int array"
  sa_t_rate :: "real array"
  sa_sum_t_rate :: "real array"
  sa_t_time :: "real array"
  sa_errcode :: "error option"

text \<open>\<open>&a[k]\<close>: the array \<open>a\<close> seen from the pointer to its element \<open>k\<close>.\<close>

definition slice :: "'a array \<Rightarrow> int \<Rightarrow> 'a array" where
  "slice a k = (\<lambda>i. a (k + i))"

section \<open>The scheduled events: \<open>SimInf_process_E1_events\<close> and \<open>SimInf_process_E2_events\<close>\<close>

text \<open>
  \<open>SimInf_solver_ssa\<close> has the two loops inline, with the same text. The exit event
  removes the sampled individuals from the node and breaks at a negative compartment:
  the result is the error code and \<open>uu\<close>.
\<close>

function E1_exit_loop ::
  "int array \<Rightarrow> int \<Rightarrow> int array \<Rightarrow> int \<Rightarrow> int \<Rightarrow> int \<Rightarrow> int array \<Rightarrow> error option \<times> int array" where
  "E1_exit_loop irE Nc individuals node ii hi uu =
     (if ii < hi then
        (let jj = irE ii;
             kk = node * Nc + jj;
             uu = uu(kk := uu kk - individuals jj)
         in if uu kk < 0 then (Some SIMINF_ERR_NEGATIVE_STATE, uu)
            else E1_exit_loop irE Nc individuals node (ii + 1) hi uu)
      else (None, uu))"
  by pat_completeness auto
termination
  by (relation "measure (\<lambda>(irE, Nc, ind, node, ii, hi, uu). nat (hi - ii))") auto

text \<open>The internal transfer event adds the sampled individuals to the shifted
  compartments of the node, then removes them from their compartments.\<close>

function E1_internal_transfer_loop ::
  "int array \<Rightarrow> int \<Rightarrow> int array \<Rightarrow> int array \<Rightarrow> int \<Rightarrow> int \<Rightarrow> int \<Rightarrow> int \<Rightarrow> int array \<Rightarrow>
   error option \<times> int array" where
  "E1_internal_transfer_loop irE Nc N individuals node shift ii hi uu =
     (if ii < hi then
        (let jj = irE ii;
             kk = node * Nc + jj;
             ll = N (shift * Nc + jj);
             uu = uu(kk + ll := uu (kk + ll) + individuals jj)
         in if uu (kk + ll) < 0 then (Some SIMINF_ERR_NEGATIVE_STATE, uu)
            else
              (let uu = uu(kk := uu kk - individuals jj)
               in if uu kk < 0 then (Some SIMINF_ERR_NEGATIVE_STATE, uu)
                  else E1_internal_transfer_loop irE Nc N individuals node shift (ii + 1) hi uu))
      else (None, uu))"
  by pat_completeness auto
termination
  by (relation "measure (\<lambda>(irE, Nc, N, ind, node, shift, ii, hi, uu). nat (hi - ii))") auto

text \<open>The external transfer event adds the sampled individuals to the (shifted)
  compartments of \<open>dest\<close>, then removes them from \<open>node\<close>.\<close>

function E2_transfer_loop ::
  "int array \<Rightarrow> int \<Rightarrow> int array \<Rightarrow> int array \<Rightarrow> int \<Rightarrow> int \<Rightarrow> int \<Rightarrow> int \<Rightarrow> int \<Rightarrow> int array \<Rightarrow>
   error option \<times> int array" where
  "E2_transfer_loop irE Nc N individuals node dest shift i hi uu =
     (if i < hi then
        (let jj = irE i;
             k1 = dest * Nc + jj;
             k2 = node * Nc + jj;
             ll = (if shift < 0 then 0 else N (shift * Nc + jj));
             uu = uu(k1 + ll := uu (k1 + ll) + individuals jj)
         in if uu (k1 + ll) < 0 then (Some SIMINF_ERR_NEGATIVE_STATE, uu)
            else
              (let uu = uu(k2 := uu k2 - individuals jj)
               in if uu k2 < 0 then (Some SIMINF_ERR_NEGATIVE_STATE, uu)
                  else E2_transfer_loop irE Nc N individuals node dest shift (i + 1) hi uu))
      else (None, uu))"
  by pat_completeness auto
termination
  by (relation "measure (\<lambda>(irE, Nc, N, ind, node, dest, shift, i, hi, uu). nat (hi - i))") auto

declare E1_exit_loop.simps [simp del] E1_internal_transfer_loop.simps [simp del]
  E2_transfer_loop.simps [simp del]

text \<open>
  The body of the loop of \<open>SimInf_process_E1_events\<close>, for the event at \<open>E1_index\<close>. The
  result says whether the body leaves the loop by \<open>break\<close> (after a sampling error), and
  gives the thread's arguments and the shared memory after it.
\<close>

definition E1_body ::
  "'g gsl_rng_ops \<Rightarrow> 'g SimInf_thread_args \<Rightarrow> shared \<Rightarrow> bool \<times> 'g SimInf_thread_args \<times> shared" where
  "E1_body ops sa sh =
     (let e1 = sa_E1 sa;
          j = sa_E1_index sa;
          s = ev_select e1 j
      in if ev_event e1 j = ENTER_EVENT then
           (let (sa, sh) =
              (if sa_jcE sa s < sa_jcE sa (s + 1) then
                 (let k = ev_node e1 j * sa_Nc sa + sa_irE sa (sa_jcE sa s);
                      uu = (sh_uu sh)(k := sh_uu sh k + ev_n e1 j)
                  in (if uu k < 0 then sa\<lparr>sa_errcode := Some SIMINF_ERR_NEGATIVE_STATE\<rparr> else sa,
                      sh\<lparr>sh_uu := uu\<rparr>))
               else (sa, sh))
            in (False, sa\<lparr>sa_E1_index := j + 1\<rparr>,
                sh\<lparr>sh_update_node := (sh_update_node sh)(ev_node e1 j := 1)\<rparr>))
         else
           (let (err, individuals, u_tmp, rng) =
                  SimInf_sample_select ops (sa_irE sa) (sa_jcE sa) (sa_Nc sa) (sh_uu sh)
                    (ev_node e1 j) (ev_select e1 j) (ev_n e1 j) (ev_proportion e1 j)
                    (sa_individuals sa) (sa_u_tmp sa) (sa_rng sa);
                sa = sa\<lparr>sa_errcode := err, sa_individuals := individuals, sa_u_tmp := u_tmp,
                       sa_rng := rng\<rparr>
            in if err \<noteq> None then (True, sa, sh)
               else
                 (let (err, uu) =
                    (if ev_event e1 j = EXIT_EVENT then
                       E1_exit_loop (sa_irE sa) (sa_Nc sa) (sa_individuals sa) (ev_node e1 j)
                         (sa_jcE sa s) (sa_jcE sa (s + 1)) (sh_uu sh)
                     else
                       E1_internal_transfer_loop (sa_irE sa) (sa_Nc sa) (sa_N sa)
                         (sa_individuals sa) (ev_node e1 j) (ev_shift e1 j)
                         (sa_jcE sa s) (sa_jcE sa (s + 1)) (sh_uu sh))
                  in (False, sa\<lparr>sa_errcode := err, sa_E1_index := j + 1\<rparr>,
                      sh\<lparr>sh_uu := uu,
                         sh_update_node := (sh_update_node sh)(ev_node e1 j := 1)\<rparr>))))"

text \<open>\<open>SimInf_process_E1_events\<close>: the loop runs while the queue has an event, the event is
  due (\<open>tt >= time\<close>) and the thread has no error.\<close>

function SimInf_process_E1_events ::
  "'g gsl_rng_ops \<Rightarrow> 'g SimInf_thread_args \<Rightarrow> shared \<Rightarrow> 'g SimInf_thread_args \<times> shared" where
  "SimInf_process_E1_events ops sa sh =
     (if sa_E1_index sa < ev_len (sa_E1 sa) \<and>
         sa_tt sa \<ge> real_of_int (ev_time (sa_E1 sa) (sa_E1_index sa)) \<and>
         sa_errcode sa = None then
        (case E1_body ops sa sh of
           (True, sa', sh') \<Rightarrow> (sa', sh')
         | (False, sa', sh') \<Rightarrow> SimInf_process_E1_events ops sa' sh')
      else (sa, sh))"
  by pat_completeness auto
termination
  by (relation "measure (\<lambda>(ops, sa, sh). nat (ev_len (sa_E1 sa) - sa_E1_index sa))")
     (auto simp: E1_body_def Let_def split: if_splits prod.splits)

text \<open>The body of the loop of \<open>SimInf_process_E2_events\<close>, for the event at \<open>E2_index\<close>.\<close>

definition E2_body ::
  "'g gsl_rng_ops \<Rightarrow> 'g SimInf_thread_args \<Rightarrow> shared \<Rightarrow> bool \<times> 'g SimInf_thread_args \<times> shared" where
  "E2_body ops sa sh =
     (let e2 = sa_E2 sa;
          j = sa_E2_index sa;
          (err, individuals, u_tmp, rng) =
             SimInf_sample_select ops (sa_irE sa) (sa_jcE sa) (sa_Nc sa) (sh_uu sh)
               (ev_node e2 j) (ev_select e2 j) (ev_n e2 j) (ev_proportion e2 j)
               (sa_individuals sa) (sa_u_tmp sa) (sa_rng sa);
          sa = sa\<lparr>sa_errcode := err, sa_individuals := individuals, sa_u_tmp := u_tmp,
                 sa_rng := rng\<rparr>
      in if err \<noteq> None then (True, sa, sh)
         else
           (let (err, uu) =
                  E2_transfer_loop (sa_irE sa) (sa_Nc sa) (sa_N sa) (sa_individuals sa)
                    (ev_node e2 j) (ev_dest e2 j) (ev_shift e2 j)
                    (sa_jcE sa (ev_select e2 j)) (sa_jcE sa (ev_select e2 j + 1)) (sh_uu sh)
            in (False, sa\<lparr>sa_errcode := err, sa_E2_index := j + 1\<rparr>,
                sh\<lparr>sh_uu := uu,
                   sh_update_node :=
                     ((sh_update_node sh)(ev_node e2 j := 1))(ev_dest e2 j := 1)\<rparr>)))"

function SimInf_process_E2_events ::
  "'g gsl_rng_ops \<Rightarrow> 'g SimInf_thread_args \<Rightarrow> shared \<Rightarrow> 'g SimInf_thread_args \<times> shared" where
  "SimInf_process_E2_events ops sa sh =
     (if sa_E2_index sa < ev_len (sa_E2 sa) \<and>
         sa_tt sa \<ge> real_of_int (ev_time (sa_E2 sa) (sa_E2_index sa)) \<and>
         sa_errcode sa = None then
        (case E2_body ops sa sh of
           (True, sa', sh') \<Rightarrow> (sa', sh')
         | (False, sa', sh') \<Rightarrow> SimInf_process_E2_events ops sa' sh')
      else (sa, sh))"
  by pat_completeness auto
termination
  by (relation "measure (\<lambda>(ops, sa, sh). nat (ev_len (sa_E2 sa) - sa_E2_index sa))")
     (auto simp: E2_body_def Let_def split: if_splits prod.splits)

declare SimInf_process_E1_events.simps [simp del] SimInf_process_E2_events.simps [simp del]

text \<open>The number of individuals of a node, and of all the \<open>Nn\<close> nodes.\<close>

definition node_total :: "int \<Rightarrow> int array \<Rightarrow> int \<Rightarrow> int" where
  "node_total Nc uu node = (\<Sum>k = node * Nc..<(node + 1) * Nc. uu k)"

definition grand_total :: "int \<Rightarrow> int \<Rightarrow> int array \<Rightarrow> int" where
  "grand_total Nn Nc uu = (\<Sum>k = 0..<Nn * Nc. uu k)"

text \<open>An external transfer event of the data model: its nodes are nodes of the model, the
  select column lists compartments, and the shift moves each of them to a compartment.\<close>

definition E2_event_wf :: "'g SimInf_thread_args \<Rightarrow> int \<Rightarrow> bool" where
  "E2_event_wf sa j \<longleftrightarrow>
     (let e2 = sa_E2 sa; Nc = sa_Nc sa in
      0 \<le> ev_node e2 j \<and> ev_node e2 j < sa_Ntot sa \<and>
      0 \<le> ev_dest e2 j \<and> ev_dest e2 j < sa_Ntot sa \<and>
      (\<forall>i\<in>select_column (sa_jcE sa) (ev_select e2 j).
         0 \<le> sa_irE sa i \<and> sa_irE sa i < Nc \<and>
         (0 \<le> ev_shift e2 j \<longrightarrow>
            0 \<le> sa_irE sa i + sa_N sa (ev_shift e2 j * Nc + sa_irE sa i) \<and>
            sa_irE sa i + sa_N sa (ev_shift e2 j * Nc + sa_irE sa i) < Nc)))"

text \<open>The structures as \<open>calloc\<close> returns them: every field zero.\<close>

definition calloc_events :: SimInf_scheduled_events where
  "calloc_events =
     \<lparr>ev_len = 0, ev_event = (\<lambda>i. 0), ev_time = (\<lambda>i. 0), ev_node = (\<lambda>i. 0),
      ev_dest = (\<lambda>i. 0), ev_n = (\<lambda>i. 0), ev_proportion = (\<lambda>i. 0), ev_select = (\<lambda>i. 0),
      ev_shift = (\<lambda>i. 0)\<rparr>"

definition calloc_thread_args :: "'g \<Rightarrow> 'g SimInf_thread_args" where
  "calloc_thread_args g =
     \<lparr>sa_rng = g, sa_Ntot = 0, sa_Ni = 0, sa_Nn = 0, sa_Nt = 0, sa_Nc = 0, sa_Nd = 0,
      sa_Nld = 0, sa_irG = (\<lambda>i. 0), sa_jcG = (\<lambda>i. 0), sa_irS = (\<lambda>i. 0), sa_jcS = (\<lambda>i. 0),
      sa_prS = (\<lambda>i. 0), sa_irE = (\<lambda>i. 0), sa_jcE = (\<lambda>i. 0),
      sa_tr_fun = (\<lambda>j u v ldata gdata t. 0), sa_pts_fun = (\<lambda>v_new u v ldata gdata node t. (0, v_new)),
      sa_tt = 0, sa_next_day = 0, sa_tspan = (\<lambda>i. 0), sa_tlen = 0, sa_U_it = 0, sa_V_it = 0,
      sa_N = (\<lambda>i. 0), sa_U = False, sa_irU = (\<lambda>i. 0), sa_jcU = (\<lambda>i. 0), sa_u = 0,
      sa_V = False, sa_irV = (\<lambda>i. 0), sa_jcV = (\<lambda>i. 0), sa_v = (VV_1, 0), sa_v_new = (VV_1, 0),
      sa_ldata = (\<lambda>i. 0), sa_gdata = (\<lambda>i. 0), sa_update_node = 0,
      sa_E1 = calloc_events, sa_E1_index = 0, sa_E2 = calloc_events, sa_E2_index = 0,
      sa_individuals = (\<lambda>i. 0), sa_u_tmp = (\<lambda>i. 0), sa_t_rate = (\<lambda>i. 0),
      sa_sum_t_rate = (\<lambda>i. 0), sa_t_time = (\<lambda>i. 0), sa_errcode = None\<rparr>"

definition calloc_shared :: shared where
  "calloc_shared =
     \<lparr>sh_uu = (\<lambda>i. 0), sh_update_node = (\<lambda>i. 0), sh_vv = (\<lambda>b i. 0), sh_U = (\<lambda>i. 0),
      sh_V = (\<lambda>i. 0), sh_prU = (\<lambda>i. 0), sh_prV = (\<lambda>i. 0)\<rparr>"

text \<open>Two concrete threads. The first has one enter event whose select column is empty.
  The second has one external transfer event that moves 3 individuals from node 0 to
  node 1, in a model of two nodes with one compartment.\<close>

definition enter_empty_args :: "unit SimInf_thread_args" where
  "enter_empty_args =
     (calloc_thread_args ())\<lparr>sa_Ntot := 1, sa_Nn := 1, sa_Nc := 1,
        sa_E1 := calloc_events\<lparr>ev_len := 1, ev_event := array_of [1], ev_n := array_of [4]\<rparr>\<rparr>"

definition transfer_args :: "unit SimInf_thread_args" where
  "transfer_args =
     (calloc_thread_args ())\<lparr>sa_Ntot := 2, sa_Nn := 2, sa_Nc := 1,
        sa_irE := array_of [0], sa_jcE := array_of [0, 1],
        sa_E2 := calloc_events\<lparr>ev_len := 1, ev_event := array_of [3], ev_dest := array_of [1],
                   ev_n := array_of [3], ev_shift := array_of [- 1]\<rparr>\<rparr>"

definition transfer_shared :: shared where
  "transfer_shared = calloc_shared\<lparr>sh_uu := array_of [5, 0]\<rparr>"



section \<open>The solver: \<open>SimInf_solver_ssa\<close>\<close>

text \<open>\<open>isfinite\<close>: every \<open>real\<close> is finite; the infinities and NaN of a \<open>double\<close> are not
  modelled.\<close>

definition isfinite :: "real \<Rightarrow> bool" where
  "isfinite x = True"

subsection \<open>Step 1: the continuous-time Markov chain of a node\<close>

text \<open>1b, the transition that occurs:
  \<^verbatim>\<open>for (tr = 0, cum = sa.t_rate[node * sa.Nt]; tr < sa.Nt && rand > cum;
       tr++, cum += sa.t_rate[node * sa.Nt + tr]);\<close>\<close>

function tr_search :: "real array \<Rightarrow> int \<Rightarrow> int \<Rightarrow> real \<Rightarrow> int \<Rightarrow> real \<Rightarrow> int" where
  "tr_search t_rate node Nt rand tr cum =
     (if tr < Nt \<and> rand > cum then
        tr_search t_rate node Nt rand (tr + 1) (cum + t_rate (node * Nt + (tr + 1)))
      else tr)"
  by pat_completeness auto
termination
  by (relation "measure (\<lambda>(t_rate, node, Nt, rand, tr, cum). nat (Nt - tr))") auto

text \<open>\<^verbatim>\<open>for ( ; tr > 0 && sa.t_rate[node * sa.Nt + tr] == 0.0; tr--);\<close>\<close>

function tr_backward :: "real array \<Rightarrow> int \<Rightarrow> int \<Rightarrow> int \<Rightarrow> int" where
  "tr_backward t_rate node Nt tr =
     (if tr > 0 \<and> t_rate (node * Nt + tr) = 0 then tr_backward t_rate node Nt (tr - 1)
      else tr)"
  by pat_completeness auto
termination
  by (relation "measure (\<lambda>(t_rate, node, Nt, tr). nat tr)") auto

text \<open>The "elaborate floating point fix" on the transition \<open>tr\<close> that the search has found:
  the transition to fire, or \<open>None\<close> for the nil event.\<close>

definition floating_point_fix :: "real array \<Rightarrow> int \<Rightarrow> int \<Rightarrow> int \<Rightarrow> int option" where
  "floating_point_fix t_rate node Nt tr =
     (let tr = (if tr \<ge> Nt then Nt - 1 else tr)
      in if t_rate (node * Nt + tr) = 0 then
           (let tr = tr_backward t_rate node Nt tr
            in if t_rate (node * Nt + tr) = 0 then None else Some tr)
         else Some tr)"

text \<open>1a and 1b: the time of the next event of the node and the transition that occurs.
  The result is the thread after the draws, and the transition to fire; it is \<open>None\<close>
  where the code leaves the loop of the node by \<open>break\<close>.\<close>

definition ssa_select ::
  "'g gsl_rng_ops \<Rightarrow> int \<Rightarrow> 'g SimInf_thread_args \<Rightarrow> 'g SimInf_thread_args \<times> int option" where
  "ssa_select ops node sa =
     (if sa_sum_t_rate sa node \<le> 0 then
        (sa\<lparr>sa_t_time := (sa_t_time sa)(node := sa_next_day sa)\<rparr>, None)
      else
        (let (r, rng) = gsl_rng_uniform_pos ops (sa_rng sa);
             sa = sa\<lparr>sa_rng := rng\<rparr>;
             tau = - ln r / sa_sum_t_rate sa node
         in if tau + sa_t_time sa node \<ge> sa_next_day sa then
              (sa\<lparr>sa_t_time := (sa_t_time sa)(node := sa_next_day sa)\<rparr>, None)
            else
              (let sa = sa\<lparr>sa_t_time := (sa_t_time sa)(node := sa_t_time sa node + tau)\<rparr>;
                   (r, rng) = gsl_rng_uniform_pos ops (sa_rng sa);
                   sa = sa\<lparr>sa_rng := rng\<rparr>;
                   rand = r * sa_sum_t_rate sa node;
                   tr = tr_search (sa_t_rate sa) node (sa_Nt sa) rand 0
                          (sa_t_rate sa (node * sa_Nt sa))
               in case floating_point_fix (sa_t_rate sa) node (sa_Nt sa) tr of
                    None \<Rightarrow> (sa\<lparr>sa_sum_t_rate := (sa_sum_t_rate sa)(node := 0)\<rparr>, None)
                  | Some tr \<Rightarrow> (sa, Some tr))))"

text \<open>1c, the state of the node after the transition: the column \<open>tr\<close> of S is added to
  \<open>u\<close>. A negative compartment sets the error code; the loop goes on.\<close>

function update_state ::
  "int array \<Rightarrow> int array \<Rightarrow> int \<Rightarrow> int \<Rightarrow> int \<Rightarrow> int \<Rightarrow> int \<Rightarrow> error option \<times> int array \<Rightarrow>
   error option \<times> int array" where
  "update_state irS prS u Nc node j hi (errcode, uu) =
     (if j < hi then
        (let k = u + (node * Nc + irS j);
             uu = uu(k := uu k + prS j)
         in update_state irS prS u Nc node (j + 1) hi
              (if uu k < 0 then Some SIMINF_ERR_NEGATIVE_STATE else errcode, uu))
      else (errcode, uu))"
  by pat_completeness auto
termination
  by (relation "measure (\<lambda>(irS, prS, u, Nc, node, j, hi, st). nat (hi - j))") auto

text \<open>The rate of transition \<open>tr\<close> in a node, at time \<open>t\<close>, from the continuous state at
  the pointer \<open>v\<close>.\<close>

definition tr_rate ::
  "'g SimInf_thread_args \<Rightarrow> shared \<Rightarrow> vbuf \<times> int \<Rightarrow> int \<Rightarrow> int \<Rightarrow> real \<Rightarrow> real" where
  "tr_rate sa sh v node tr t =
     sa_tr_fun sa tr
       (slice (sh_uu sh) (sa_u sa + node * sa_Nc sa))
       (slice (sh_vv sh (fst v)) (snd v + node * sa_Nd sa))
       (slice (sa_ldata sa) (node * sa_Nld sa))
       (sa_gdata sa) t"

text \<open>1d, the rates of the transitions that depend on \<open>tr\<close> (its column of G): the loop
  works on \<open>t_rate\<close>, \<open>delta\<close> and the error code.\<close>

function update_rates ::
  "'g SimInf_thread_args \<Rightarrow> shared \<Rightarrow> int \<Rightarrow> int \<Rightarrow> int \<Rightarrow> real array \<times> real \<times> error option \<Rightarrow>
   real array \<times> real \<times> error option" where
  "update_rates sa sh node j hi (t_rate, delta, errcode) =
     (if j < hi then
        (let k = node * sa_Nt sa + sa_irG sa j;
             old = t_rate k;
             rate = tr_rate sa sh (sa_v sa) node (sa_irG sa j) (sa_t_time sa node)
         in update_rates sa sh node (j + 1) hi
              (t_rate(k := rate), delta + (rate - old),
               if \<not> isfinite rate \<or> rate < 0 then Some SIMINF_ERR_INVALID_RATE else errcode))
      else (t_rate, delta, errcode))"
  by pat_completeness auto
termination
  by (relation "measure (\<lambda>(sa, sh, node, j, hi, st). nat (hi - j))") auto

declare tr_search.simps [simp del] tr_backward.simps [simp del] update_state.simps [simp del]
  update_rates.simps [simp del]

text \<open>1c and 1d for the transition \<open>tr\<close>.\<close>

definition ssa_fire ::
  "int \<Rightarrow> int \<Rightarrow> 'g SimInf_thread_args \<Rightarrow> shared \<Rightarrow> 'g SimInf_thread_args \<times> shared" where
  "ssa_fire node tr sa sh =
     (let (errcode, uu) =
            update_state (sa_irS sa) (sa_prS sa) (sa_u sa) (sa_Nc sa) node
              (sa_jcS sa tr) (sa_jcS sa (tr + 1)) (sa_errcode sa, sh_uu sh);
          sa = sa\<lparr>sa_errcode := errcode\<rparr>;
          sh = sh\<lparr>sh_uu := uu\<rparr>;
          (t_rate, delta, errcode) =
            update_rates sa sh node (sa_jcG sa tr) (sa_jcG sa (tr + 1))
              (sa_t_rate sa, 0, sa_errcode sa)
      in (sa\<lparr>sa_t_rate := t_rate, sa_errcode := errcode,
             sa_sum_t_rate := (sa_sum_t_rate sa)(node := sa_sum_t_rate sa node + delta)\<rparr>,
          sh))"

text \<open>One round of the loop \<open>for (;;)\<close> of a node; the first component tells whether the
  round leaves the loop.\<close>

definition ssa_step ::
  "'g gsl_rng_ops \<Rightarrow> int \<Rightarrow> 'g SimInf_thread_args \<Rightarrow> shared \<Rightarrow>
   bool \<times> 'g SimInf_thread_args \<times> shared" where
  "ssa_step ops node sa sh =
     (case ssa_select ops node sa of
        (sa, None) \<Rightarrow> (True, sa, sh)
      | (sa, Some tr) \<Rightarrow> (False, ssa_fire node tr sa sh))"

text \<open>The loop \<open>for (;;)\<close> of a node. Nothing bounds the number of its rounds, so its
  result is an option: \<open>None\<close> when the loop does not end.\<close>

partial_function (option) ssa_node ::
  "'g gsl_rng_ops \<Rightarrow> int \<Rightarrow> 'g SimInf_thread_args \<Rightarrow> shared \<Rightarrow>
   ('g SimInf_thread_args \<times> shared) option" where
  "ssa_node ops node sa sh =
     (case ssa_step ops node sa sh of
        (brk, sa', sh') \<Rightarrow> if brk then Some (sa', sh') else ssa_node ops node sa' sh')"

text \<open>The array of doubles that holds the elements of a list, and 0 elsewhere.\<close>

definition rarray_of :: "real list \<Rightarrow> real array" where
  "rarray_of xs = (\<lambda>i. if 0 \<le> i \<and> i < int (length xs) then xs ! nat i else 0)"

text \<open>A thread with one node and two transitions whose cached rates are both 0 while the
  cached sum of the rates of the node is 1, at time 0 of day 0.\<close>

definition nil_event_args :: "unit SimInf_thread_args" where
  "nil_event_args =
     (calloc_thread_args ())\<lparr>sa_Ntot := 1, sa_Nn := 1, sa_Nt := 2, sa_Nc := 1,
        sa_next_day := 1, sa_sum_t_rate := rarray_of [1]\<rparr>"

text \<open>A thread with one node and three transitions whose cached rates are 1/2, 0 and 0
  while the cached sum of the rates of the node is 2, at time 0 of day 0: the search of
  the transition runs past the last transition.\<close>

definition clamp_args :: "unit SimInf_thread_args" where
  "clamp_args =
     (calloc_thread_args ())\<lparr>sa_Ntot := 1, sa_Nn := 1, sa_Nt := 3, sa_Nc := 1,
        sa_next_day := 1, sa_t_rate := rarray_of [1 / 2, 0, 0],
        sa_sum_t_rate := rarray_of [2]\<rparr>"

subsection \<open>The loops without \<open>break\<close>\<close>

text \<open>\<^verbatim>\<open>for (i = lo; i < hi; i++) body\<close>, for a body that changes neither \<open>i\<close> nor \<open>hi\<close>.\<close>

function for_loop :: "int \<Rightarrow> int \<Rightarrow> (int \<Rightarrow> 's \<Rightarrow> 's) \<Rightarrow> 's \<Rightarrow> 's" where
  "for_loop i hi body s = (if i < hi then for_loop (i + 1) hi body (body i s) else s)"
  by pat_completeness auto
termination
  by (relation "measure (\<lambda>(i, hi, body, s). nat (hi - i))") auto

declare for_loop.simps [simp del]

subsection \<open>The rates at the start of the run\<close>

text \<open>The rate of every transition of every node of the thread, their sum in each node, and
  the time of each node. An invalid rate sets the error code.\<close>

definition init_rates_node :: "shared \<Rightarrow> int \<Rightarrow> 'g SimInf_thread_args \<Rightarrow> 'g SimInf_thread_args" where
  "init_rates_node sh node sa =
     (let sa = sa\<lparr>sa_sum_t_rate := (sa_sum_t_rate sa)(node := 0)\<rparr>;
          sa = for_loop 0 (sa_Nt sa)
                 (\<lambda>j sa.
                    let rate = tr_rate sa sh (sa_v sa) node j (sa_tt sa)
                    in sa\<lparr>sa_t_rate := (sa_t_rate sa)(node * sa_Nt sa + j := rate),
                          sa_sum_t_rate := (sa_sum_t_rate sa)(node := sa_sum_t_rate sa node + rate),
                          sa_errcode := (if \<not> isfinite rate \<or> rate < 0
                                         then Some SIMINF_ERR_INVALID_RATE else sa_errcode sa)\<rparr>)
                 sa
      in sa\<lparr>sa_t_time := (sa_t_time sa)(node := sa_tt sa)\<rparr>)"

definition init_rates :: "shared \<Rightarrow> 'g SimInf_thread_args \<Rightarrow> 'g SimInf_thread_args" where
  "init_rates sh sa = for_loop 0 (sa_Nn sa) (init_rates_node sh) sa"

subsection \<open>Steps 1 and 2 of a thread\<close>

text \<open>The loop over the nodes of the thread: it stops at an error.\<close>

lemma ssa_node_invariant:
  assumes run: "ssa_node ops node sa sh = Some (sa', sh')"
    and init: "P sa sh"
    and step: "\<And>sa sh brk sa1 sh1.
       P sa sh \<Longrightarrow> ssa_step ops node sa sh = (brk, sa1, sh1) \<Longrightarrow> P sa1 sh1"
  shows "P sa' sh'"
proof -
  have "ops = ops \<longrightarrow> node = node \<longrightarrow> P sa sh \<longrightarrow> P (fst (sa', sh')) (snd (sa', sh'))"
  proof (rule ssa_node.raw_induct[where P = "\<lambda>o1 n1 s1 h1 y1.
            o1 = ops \<longrightarrow> n1 = node \<longrightarrow> P s1 h1 \<longrightarrow> P (fst y1) (snd y1)", OF _ run])
    fix f o1 n1 s1 h1 y1
    assume IH: "\<And>o2 n2 s2 h2 y2. f o2 n2 s2 h2 = Some y2 \<Longrightarrow>
              o2 = ops \<longrightarrow> n2 = node \<longrightarrow> P s2 h2 \<longrightarrow> P (fst y2) (snd y2)"
      and body: "(case ssa_step o1 n1 s1 h1 of
                    (brk, sa', sh') \<Rightarrow> if brk then Some (sa', sh') else f o1 n1 sa' sh') = Some y1"
    show "o1 = ops \<longrightarrow> n1 = node \<longrightarrow> P s1 h1 \<longrightarrow> P (fst y1) (snd y1)"
    proof (intro impI)
      assume eq: "o1 = ops" "n1 = node" and P0: "P s1 h1"
      obtain brk sa1 sh1 where st: "ssa_step ops node s1 h1 = (brk, sa1, sh1)"
        by (metis prod_cases3)
      have P1: "P sa1 sh1" using step[OF P0 st] .
      show "P (fst y1) (snd y1)"
      proof (cases brk)
        case True
        then have "y1 = (sa1, sh1)" using body st eq by simp
        then show ?thesis using P1 by simp
      next
        case False
        then have "f ops node sa1 sh1 = Some y1" using body st eq by simp
        then show ?thesis using IH P1 by blast
      qed
    qed
  qed
  then show ?thesis using init by simp
qed

lemma ssa_step_Nn:
  "ssa_step ops node sa sh = (brk, sa1, sh1) \<Longrightarrow> sa_Nn sa1 = sa_Nn sa"
  by (auto simp: ssa_step_def ssa_select_def ssa_fire_def Let_def
      split: if_splits prod.splits option.splits)

lemma ssa_node_Nn:
  assumes "ssa_node ops node sa sh = Some (sa', sh')"
  shows "sa_Nn sa' = sa_Nn sa"
  by (rule ssa_node_invariant[OF assms, where P = "\<lambda>s h. sa_Nn s = sa_Nn sa"])
     (simp_all add: ssa_step_Nn)

function ssa_nodes ::
  "'g gsl_rng_ops \<Rightarrow> int \<Rightarrow> 'g SimInf_thread_args \<Rightarrow> shared \<Rightarrow>
   ('g SimInf_thread_args \<times> shared) option" where
  "ssa_nodes ops node sa sh =
     (if node < sa_Nn sa \<and> sa_errcode sa = None then
        (case ssa_node ops node sa sh of
           None \<Rightarrow> None
         | Some (sa', sh') \<Rightarrow> ssa_nodes ops (node + 1) sa' sh')
      else Some (sa, sh))"
  by pat_completeness auto
termination
  by (relation "measure (\<lambda>(ops, node, sa, sh). nat (sa_Nn sa - node))")
     (auto dest: ssa_node_Nn)

declare ssa_nodes.simps [simp del]

text \<open>The first parallel loop, for one thread: the Markov chain of its nodes, then its E1
  events.\<close>

definition thread_ssa_E1 ::
  "'g gsl_rng_ops \<Rightarrow> 'g SimInf_thread_args \<Rightarrow> shared \<Rightarrow> ('g SimInf_thread_args \<times> shared) option" where
  "thread_ssa_E1 ops sa sh =
     (case ssa_nodes ops 0 sa sh of
        None \<Rightarrow> None
      | Some (sa, sh) \<Rightarrow> Some (SimInf_process_E1_events ops sa sh))"

subsection \<open>Steps 4 to 6 of a thread\<close>

text \<open>The rates of all the transitions of a node, from \<open>v_new\<close> at time \<open>tt\<close>.\<close>

definition refresh_rates :: "shared \<Rightarrow> int \<Rightarrow> 'g SimInf_thread_args \<Rightarrow> 'g SimInf_thread_args" where
  "refresh_rates sh node sa =
     (let (t_rate, delta, errcode) =
            for_loop 0 (sa_Nt sa)
              (\<lambda>j (t_rate, delta, errcode).
                 let old = t_rate (node * sa_Nt sa + j);
                     rate = tr_rate sa sh (sa_v_new sa) node j (sa_tt sa)
                 in (t_rate(node * sa_Nt sa + j := rate), delta + (rate - old),
                     if \<not> isfinite rate \<or> rate < 0 then Some SIMINF_ERR_INVALID_RATE
                     else errcode))
              (sa_t_rate sa, 0, sa_errcode sa)
      in sa\<lparr>sa_t_rate := t_rate, sa_errcode := errcode,
            sa_sum_t_rate := (sa_sum_t_rate sa)(node := sa_sum_t_rate sa node + delta)\<rparr>)"

text \<open>Step 4, the loop over the nodes of the thread: the post time step function of the
  model, which writes \<open>v_new\<close>; a negative return value is the error code and breaks the
  loop; a positive one, or a node that an event has marked, has its rates computed again
  and its mark cleared.\<close>

function post_nodes ::
  "int \<Rightarrow> 'g SimInf_thread_args \<Rightarrow> shared \<Rightarrow> 'g SimInf_thread_args \<times> shared" where
  "post_nodes node sa sh =
     (if node < sa_Nn sa then
        (let v_new = sa_v_new sa;
             (rc, w) =
               sa_pts_fun sa
                 (slice (sh_vv sh (fst v_new)) (snd v_new + node * sa_Nd sa))
                 (slice (sh_uu sh) (sa_u sa + node * sa_Nc sa))
                 (slice (sh_vv sh (fst (sa_v sa))) (snd (sa_v sa) + node * sa_Nd sa))
                 (slice (sa_ldata sa) (node * sa_Nld sa))
                 (sa_gdata sa) (sa_Ni sa + node) (sa_tt sa);
             sh = sh\<lparr>sh_vv := (sh_vv sh)
                     (fst v_new := (\<lambda>k. w (k - (snd v_new + node * sa_Nd sa))))\<rparr>
         in if rc < 0 then (sa\<lparr>sa_errcode := Some (PTS_FUN_ERROR rc)\<rparr>, sh)
            else if rc > 0 \<or> sh_update_node sh (sa_update_node sa + node) \<noteq> 0 then
              post_nodes (node + 1) (refresh_rates sh node sa)
                (sh\<lparr>sh_update_node := (sh_update_node sh)(sa_update_node sa + node := 0)\<rparr>)
            else post_nodes (node + 1) sa sh)
      else (sa, sh))"
  by pat_completeness auto
termination
  by (relation "measure (\<lambda>(node, sa, sh). nat (sa_Nn sa - node))")
     (auto simp: refresh_rates_def Let_def split: prod.splits)

text \<open>Step 6a, the dense output:
  \<^verbatim>\<open>while (sa.U && sa.U_it < sa.tlen && sa.tt > sa.tspan[sa.U_it])
      memcpy(&sa.U[sa.Nc * ((sa.Ntot * sa.U_it++) + sa.Ni)], sa.u, sa.Nn * sa.Nc * sizeof(int));\<close>
  and the same for \<open>V\<close> from \<open>v_new\<close>.\<close>

function store_U :: "'g SimInf_thread_args \<Rightarrow> shared \<Rightarrow> 'g SimInf_thread_args \<times> shared" where
  "store_U sa sh =
     (if sa_U sa \<and> sa_U_it sa < sa_tlen sa \<and> sa_tt sa > sa_tspan sa (sa_U_it sa) then
        (let d = sa_Nc sa * (sa_Ntot sa * sa_U_it sa + sa_Ni sa)
         in store_U (sa\<lparr>sa_U_it := sa_U_it sa + 1\<rparr>)
              (sh\<lparr>sh_U := (\<lambda>k. if d \<le> k \<and> k < d + sa_Nn sa * sa_Nc sa
                                then sh_uu sh (sa_u sa + (k - d)) else sh_U sh k)\<rparr>))
      else (sa, sh))"
  by pat_completeness auto
termination
  by (relation "measure (\<lambda>(sa, sh). nat (sa_tlen sa - sa_U_it sa))") auto

function store_V :: "'g SimInf_thread_args \<Rightarrow> shared \<Rightarrow> 'g SimInf_thread_args \<times> shared" where
  "store_V sa sh =
     (if sa_V sa \<and> sa_V_it sa < sa_tlen sa \<and> sa_tt sa > sa_tspan sa (sa_V_it sa) then
        (let d = sa_Nd sa * (sa_Ntot sa * sa_V_it sa + sa_Ni sa)
         in store_V (sa\<lparr>sa_V_it := sa_V_it sa + 1\<rparr>)
              (sh\<lparr>sh_V := (\<lambda>k. if d \<le> k \<and> k < d + sa_Nn sa * sa_Nd sa
                                then sh_vv sh (fst (sa_v_new sa)) (snd (sa_v_new sa) + (k - d))
                                else sh_V sh k)\<rparr>))
      else (sa, sh))"
  by pat_completeness auto
termination
  by (relation "measure (\<lambda>(sa, sh). nat (sa_tlen sa - sa_V_it sa))") auto

declare post_nodes.simps [simp del] store_U.simps [simp del] store_V.simps [simp del]

text \<open>The second parallel loop, for one thread: step 4, then step 5 (the global time is now
  \<open>next_day\<close>), then step 6a.\<close>

definition thread_post_step ::
  "'g SimInf_thread_args \<Rightarrow> shared \<Rightarrow> 'g SimInf_thread_args \<times> shared" where
  "thread_post_step sa sh =
     (let (sa, sh) = post_nodes 0 sa sh;
          sa = sa\<lparr>sa_tt := sa_next_day sa, sa_next_day := sa_next_day sa + 1\<rparr>;
          (sa, sh) = store_U sa sh
      in store_V sa sh)"

subsection \<open>Step 6b: the sparse output, by the thread 0\<close>

function store_U_sparse :: "'g SimInf_thread_args \<Rightarrow> shared \<Rightarrow> 'g SimInf_thread_args \<times> shared" where
  "store_U_sparse sa sh =
     (if \<not> sa_U sa \<and> sa_U_it sa < sa_tlen sa \<and> sa_tt sa > sa_tspan sa (sa_U_it sa) then
        store_U_sparse (sa\<lparr>sa_U_it := sa_U_it sa + 1\<rparr>)
          (for_loop (sa_jcU sa (sa_U_it sa)) (sa_jcU sa (sa_U_it sa + 1))
             (\<lambda>j sh. sh\<lparr>sh_prU := (sh_prU sh)
                           (j := real_of_int (sh_uu sh (sa_u sa + sa_irU sa j)))\<rparr>)
             sh)
      else (sa, sh))"
  by pat_completeness auto
termination
  by (relation "measure (\<lambda>(sa, sh). nat (sa_tlen sa - sa_U_it sa))") auto

function store_V_sparse :: "'g SimInf_thread_args \<Rightarrow> shared \<Rightarrow> 'g SimInf_thread_args \<times> shared" where
  "store_V_sparse sa sh =
     (if \<not> sa_V sa \<and> sa_V_it sa < sa_tlen sa \<and> sa_tt sa > sa_tspan sa (sa_V_it sa) then
        store_V_sparse (sa\<lparr>sa_V_it := sa_V_it sa + 1\<rparr>)
          (for_loop (sa_jcV sa (sa_V_it sa)) (sa_jcV sa (sa_V_it sa + 1))
             (\<lambda>j sh. sh\<lparr>sh_prV := (sh_prV sh)
                           (j := sh_vv sh (fst (sa_v_new sa)) (snd (sa_v_new sa) + sa_irV sa j))\<rparr>)
             sh)
      else (sa, sh))"
  by pat_completeness auto
termination
  by (relation "measure (\<lambda>(sa, sh). nat (sa_tlen sa - sa_V_it sa))") auto

declare store_U_sparse.simps [simp del] store_V_sparse.simps [simp del]

subsection \<open>The main loop\<close>

text \<open>
  \<open>sim_args\<close> is the list of the arguments of the threads \<open>0 ..< Nthread\<close>. A loop
  \<^verbatim>\<open>#pragma omp for\<close> over the threads is modelled by the threads taking their turn in
  the order of the list: this is what the code does when it is compiled without OpenMP,
  and one of the schedules with it.
\<close>

fun threads_ssa_E1 ::
  "'g gsl_rng_ops \<Rightarrow> 'g SimInf_thread_args list \<Rightarrow> shared \<Rightarrow>
   ('g SimInf_thread_args list \<times> shared) option" where
  "threads_ssa_E1 ops [] sh = Some ([], sh)"
| "threads_ssa_E1 ops (sa # sas) sh =
     (case thread_ssa_E1 ops sa sh of
        None \<Rightarrow> None
      | Some (sa', sh') \<Rightarrow>
          (case threads_ssa_E1 ops sas sh' of
             None \<Rightarrow> None
           | Some (sas', sh'') \<Rightarrow> Some (sa' # sas', sh'')))"

fun threads_post_step ::
  "'g SimInf_thread_args list \<Rightarrow> shared \<Rightarrow> 'g SimInf_thread_args list \<times> shared" where
  "threads_post_step [] sh = ([], sh)"
| "threads_post_step (sa # sas) sh =
     (let (sa', sh') = thread_post_step sa sh;
          (sas', sh'') = threads_post_step sas sh'
      in (sa' # sas', sh''))"

text \<open>The end of a round of the main loop: the pointers \<open>v\<close> and \<open>v_new\<close> of each thread
  are swapped, and the first thread with an error ends the run with its error code.\<close>

fun swap_and_check ::
  "'g SimInf_thread_args list \<Rightarrow> 'g SimInf_thread_args list \<times> error option" where
  "swap_and_check [] = ([], None)"
| "swap_and_check (sa # sas) =
     (let sa' = sa\<lparr>sa_v := sa_v_new sa, sa_v_new := sa_v sa\<rparr>
      in if sa_errcode sa' \<noteq> None then (sa' # sas, sa_errcode sa')
         else (let (sas', err) = swap_and_check sas in (sa' # sas', err)))"

text \<open>
  One round of the main loop \<open>for (;;)\<close>. The result is \<open>None\<close> when the Markov chain of a
  node does not end (or when there is no thread 0). Otherwise it gives \<open>Some code\<close> when
  the round ends the run with this return value (\<open>None\<close> is 0) and \<open>None\<close> when the loop
  goes on, and the state after the round.
\<close>

definition solver_round ::
  "'g gsl_rng_ops \<Rightarrow> 'g SimInf_thread_args list \<Rightarrow> shared \<Rightarrow>
   (error option option \<times> 'g SimInf_thread_args list \<times> shared) option" where
  "solver_round ops sim_args sh =
     (case threads_ssa_E1 ops sim_args sh of
        None \<Rightarrow> None
      | Some ([], sh) \<Rightarrow> None
      | Some (sa0 # sas, sh) \<Rightarrow>
          (let (sa0, sh) = SimInf_process_E2_events ops sa0 sh;
               (sim_args, sh) = threads_post_step (sa0 # sas) sh;
               (sa0, sh) = store_U_sparse (hd sim_args) sh;
               (sa0, sh) = store_V_sparse sa0 sh;
               (sim_args, err) = swap_and_check (sa0 # tl sim_args)
           in if err \<noteq> None then Some (Some err, sim_args, sh)
              else if sa_U_it (hd sim_args) \<ge> sa_tlen (hd sim_args)
                then Some (Some None, sim_args, sh)
              else Some (None, sim_args, sh)))"

partial_function (option) solver_loop ::
  "'g gsl_rng_ops \<Rightarrow> 'g SimInf_thread_args list \<Rightarrow> shared \<Rightarrow>
   (error option \<times> 'g SimInf_thread_args list \<times> shared) option" where
  "solver_loop ops sim_args sh =
     Option.bind (solver_round ops sim_args sh)
       (\<lambda>(ret, sim_args', sh').
          case ret of
            Some code \<Rightarrow> Some (code, sim_args', sh')
          | None \<Rightarrow> solver_loop ops sim_args' sh')"

text \<open>The first thread that has an error, in the order of the threads.\<close>

fun first_error :: "'g SimInf_thread_args list \<Rightarrow> error option" where
  "first_error [] = None"
| "first_error (sa # sas) = (if sa_errcode sa \<noteq> None then sa_errcode sa else first_error sas)"

text \<open>\<open>SimInf_solver_ssa\<close>: the return value, and the state that the run leaves.\<close>

definition SimInf_solver_ssa ::
  "'g gsl_rng_ops \<Rightarrow> 'g SimInf_thread_args list \<Rightarrow> shared \<Rightarrow>
   (error option \<times> 'g SimInf_thread_args list \<times> shared) option" where
  "SimInf_solver_ssa ops sim_args sh =
     (let sim_args = map (init_rates sh) sim_args
      in if first_error sim_args \<noteq> None then Some (first_error sim_args, sim_args, sh)
         else solver_loop ops sim_args sh)"

section \<open>The entry point: \<open>SimInf_run_solver_ssa\<close>\<close>

text \<open>The division and the remainder of C on \<open>int\<close>: the quotient is truncated towards
  zero. C leaves the division by zero undefined; the model tests for it where it divides.\<close>

definition C_div :: "int \<Rightarrow> int \<Rightarrow> int" where
  "C_div a b = sgn a * sgn b * (\<bar>a\<bar> div \<bar>b\<bar>)"

definition C_mod :: "int \<Rightarrow> int \<Rightarrow> int" where
  "C_mod a b = a - b * C_div a b"

text \<open>\<open>SimInf_solver_args\<close>, the arguments of the run. \<open>args_U\<close> and \<open>args_V\<close> tell
  whether the pointers to the dense output are non-null.\<close>

record SimInf_solver_args =
  args_Nn :: int
  args_Nc :: int
  args_Nt :: int
  args_Nd :: int
  args_Nld :: int
  args_Nthread :: int
  args_seed :: int
  args_u0 :: "int array"
  args_v0 :: "real array"
  args_tspan :: "real array"
  args_tlen :: int
  args_irG :: "int array"
  args_jcG :: "int array"
  args_irS :: "int array"
  args_jcS :: "int array"
  args_prS :: "int array"
  args_irE :: "int array"
  args_jcE :: "int array"
  args_N :: "int array"
  args_U :: bool
  args_irU :: "int array"
  args_jcU :: "int array"
  args_V :: bool
  args_irV :: "int array"
  args_jcV :: "int array"
  args_ldata :: "real array"
  args_gdata :: "real array"
  args_tr_fun :: "int \<Rightarrow> TRFun"
  args_pts_fun :: PTSFun
  args_len :: int
  args_event :: "int array"
  args_time :: "int array"
  args_node :: "int array"
  args_dest :: "int array"
  args_n :: "int array"
  args_proportion :: "real array"
  args_select :: "int array"
  args_shift :: "int array"

subsection \<open>\<open>SimInf_split_events\<close>\<close>

text \<open>The thread of the E1 events of a node (one-based, as in the event stream):
  \<^verbatim>\<open>k = (node[i] - 1) / chunk_size; if (k >= Nthread) k = Nthread - 1;\<close>
  The result is \<open>None\<close> when \<open>chunk_size\<close> is 0.\<close>

definition E1_thread :: "int \<Rightarrow> int \<Rightarrow> int \<Rightarrow> int option" where
  "E1_thread chunk_size Nthread node =
     (if chunk_size = 0 then None
      else (let k = C_div (node - 1) chunk_size
            in Some (if k \<ge> Nthread then Nthread - 1 else k)))"

text \<open>The first pass counts the events of each queue. An event of no known type ends the
  pass with \<open>SIMINF_UNDEFINED_EVENT\<close>. The result is \<open>None\<close> where the behaviour of the
  code is undefined: a division by zero, or a thread \<open>k < 0\<close>.\<close>

function split_count ::
  "int array \<Rightarrow> int array \<Rightarrow> int \<Rightarrow> int \<Rightarrow> int \<Rightarrow> int \<Rightarrow> int array \<times> int \<Rightarrow>
   (error option \<times> int array \<times> int) option" where
  "split_count event node chunk_size Nthread i len (E1_i, E2_i) =
     (if i < len then
        (if event i = EXIT_EVENT \<or> event i = ENTER_EVENT \<or> event i = INTERNAL_TRANSFER_EVENT
         then
           (case E1_thread chunk_size Nthread (node i) of
              None \<Rightarrow> None
            | Some k \<Rightarrow>
                if k < 0 then None
                else split_count event node chunk_size Nthread (i + 1) len
                       (E1_i(k := E1_i k + 1), E2_i))
         else if event i = EXTERNAL_TRANSFER_EVENT then
           split_count event node chunk_size Nthread (i + 1) len (E1_i, E2_i + 1)
         else Some (Some SIMINF_UNDEFINED_EVENT, E1_i, E2_i))
      else Some (None, E1_i, E2_i))"
  by pat_completeness auto
termination
  by (relation "measure (\<lambda>(event, node, chunk_size, Nthread, i, len, st). nat (len - i))") auto

text \<open>\<open>SimInf_allocate_events\<close>; the allocation is taken to succeed.\<close>

definition SimInf_allocate_events :: "SimInf_scheduled_events \<Rightarrow> int \<Rightarrow> SimInf_scheduled_events" where
  "SimInf_allocate_events e n = (if n > 0 then e\<lparr>ev_len := n\<rparr> else e)"

fun split_allocate ::
  "int array \<Rightarrow> int \<Rightarrow> int \<Rightarrow> 'g SimInf_thread_args list \<Rightarrow> 'g SimInf_thread_args list" where
  "split_allocate E1_i E2_i i [] = []"
| "split_allocate E1_i E2_i i (sa # sas) =
     (let sa = sa\<lparr>sa_E1 := SimInf_allocate_events (sa_E1 sa) (E1_i i)\<rparr>;
          sa = (if i = 0 then sa\<lparr>sa_E2 := SimInf_allocate_events (sa_E2 sa) E2_i\<rparr> else sa)
      in sa # split_allocate E1_i E2_i (i + 1) sas)"

text \<open>The event \<open>i\<close> of the stream, written at the place \<open>j\<close> of a queue with its indices
  made zero-based.\<close>

definition put_event ::
  "SimInf_solver_args \<Rightarrow> int \<Rightarrow> int \<Rightarrow> SimInf_scheduled_events \<Rightarrow> SimInf_scheduled_events" where
  "put_event args i j e =
     e\<lparr>ev_event := (ev_event e)(j := args_event args i),
       ev_time := (ev_time e)(j := args_time args i),
       ev_node := (ev_node e)(j := args_node args i - 1),
       ev_dest := (ev_dest e)(j := args_dest args i - 1),
       ev_n := (ev_n e)(j := args_n args i),
       ev_proportion := (ev_proportion e)(j := args_proportion args i),
       ev_select := (ev_select e)(j := args_select args i - 1),
       ev_shift := (ev_shift e)(j := args_shift args i - 1)\<rparr>"

text \<open>The second pass writes the events into the queues.\<close>

function split_fill ::
  "SimInf_solver_args \<Rightarrow> int \<Rightarrow> int \<Rightarrow> int \<Rightarrow> int \<Rightarrow>
   'g SimInf_thread_args list \<times> int array \<times> int \<Rightarrow>
   (error option \<times> 'g SimInf_thread_args list) option" where
  "split_fill args chunk_size Nthread i len (sim_args, E1_i, E2_i) =
     (if i < len then
        (if args_event args i = EXIT_EVENT \<or> args_event args i = ENTER_EVENT \<or>
            args_event args i = INTERNAL_TRANSFER_EVENT
         then
           (case E1_thread chunk_size Nthread (args_node args i) of
              None \<Rightarrow> None
            | Some k \<Rightarrow>
                if k < 0 \<or> k \<ge> int (length sim_args) then None
                else
                  (let sa = sim_args ! nat k;
                       sa = sa\<lparr>sa_E1 := put_event args i (E1_i k) (sa_E1 sa)\<rparr>
                   in split_fill args chunk_size Nthread (i + 1) len
                        (sim_args[nat k := sa], E1_i(k := E1_i k + 1), E2_i)))
         else if args_event args i = EXTERNAL_TRANSFER_EVENT then
           (case sim_args of
              [] \<Rightarrow> None
            | sa # sas \<Rightarrow>
                split_fill args chunk_size Nthread (i + 1) len
                  (sa\<lparr>sa_E2 := put_event args i E2_i (sa_E2 sa)\<rparr> # sas, E1_i, E2_i + 1))
         else Some (Some SIMINF_UNDEFINED_EVENT, sim_args))
      else Some (None, sim_args))"
  by pat_completeness auto
termination
  by (relation "measure (\<lambda>(args, chunk_size, Nthread, i, len, st). nat (len - i))") auto

declare split_count.simps [simp del] split_fill.simps [simp del]

definition SimInf_split_events ::
  "'g SimInf_thread_args list \<Rightarrow> SimInf_solver_args \<Rightarrow>
   (error option \<times> 'g SimInf_thread_args list) option" where
  "SimInf_split_events sim_args args =
     (if args_Nthread args = 0 then None
      else
        (let chunk_size = C_div (args_Nn args) (args_Nthread args)
         in case split_count (args_event args) (args_node args) chunk_size (args_Nthread args)
                   0 (args_len args) (\<lambda>k. 0, 0) of
              None \<Rightarrow> None
            | Some (Some err, E1_i, E2_i) \<Rightarrow> Some (Some err, sim_args)
            | Some (None, E1_i, E2_i) \<Rightarrow>
                split_fill args chunk_size (args_Nthread args) 0 (args_len args)
                  (split_allocate E1_i E2_i 0 sim_args, \<lambda>k. 0, 0)))"

subsection \<open>The arguments of the threads\<close>

text \<open>The nodes of thread \<open>i\<close>: \<open>Nn / Nthread\<close> nodes from \<open>Ni = i * (Nn / Nthread)\<close> on, and
  the last thread takes the remainder too.\<close>

definition thread_Ni :: "int \<Rightarrow> int \<Rightarrow> int \<Rightarrow> int" where
  "thread_Ni Nn Nthread i = i * C_div Nn Nthread"

definition thread_Nn :: "int \<Rightarrow> int \<Rightarrow> int \<Rightarrow> int" where
  "thread_Nn Nn Nthread i =
     C_div Nn Nthread + (if i = Nthread - 1 then C_mod Nn Nthread else 0)"

text \<open>The structure of thread \<open>i\<close> after the loop that fills it; \<open>rng\<close> is its generator.
  What \<open>malloc\<close> returns is not initialised: these arrays are zero here, and the solver
  writes them before it reads them.\<close>

definition thread_args_init :: "SimInf_solver_args \<Rightarrow> int \<Rightarrow> 'g \<Rightarrow> 'g SimInf_thread_args" where
  "thread_args_init args i rng =
     (let Ni = thread_Ni (args_Nn args) (args_Nthread args) i; tt = args_tspan args 0
      in \<lparr>sa_rng = rng, sa_Ntot = args_Nn args, sa_Ni = Ni,
          sa_Nn = thread_Nn (args_Nn args) (args_Nthread args) i,
          sa_Nt = args_Nt args, sa_Nc = args_Nc args, sa_Nd = args_Nd args,
          sa_Nld = args_Nld args,
          sa_irG = args_irG args, sa_jcG = args_jcG args, sa_irS = args_irS args,
          sa_jcS = args_jcS args, sa_prS = args_prS args, sa_irE = args_irE args,
          sa_jcE = args_jcE args,
          sa_tr_fun = args_tr_fun args, sa_pts_fun = args_pts_fun args,
          sa_tt = tt, sa_next_day = real_of_int \<lfloor>tt\<rfloor> + 1, sa_tspan = args_tspan args,
          sa_tlen = args_tlen args, sa_U_it = 1, sa_V_it = 1,
          sa_N = args_N args,
          sa_U = args_U args,
          sa_irU = (if \<not> args_U args \<and> i = 0 then args_irU args else (\<lambda>k. 0)),
          sa_jcU = (if \<not> args_U args \<and> i = 0 then args_jcU args else (\<lambda>k. 0)),
          sa_u = Ni * args_Nc args,
          sa_V = args_V args,
          sa_irV = (if \<not> args_V args \<and> i = 0 then args_irV args else (\<lambda>k. 0)),
          sa_jcV = (if \<not> args_V args \<and> i = 0 then args_jcV args else (\<lambda>k. 0)),
          sa_v = (VV_1, Ni * args_Nd args), sa_v_new = (VV_2, Ni * args_Nd args),
          sa_ldata = slice (args_ldata args) (Ni * args_Nld args),
          sa_gdata = args_gdata args,
          sa_update_node = Ni,
          sa_E1 = calloc_events, sa_E1_index = 0, sa_E2 = calloc_events, sa_E2_index = 0,
          sa_individuals = (\<lambda>k. 0), sa_u_tmp = (\<lambda>k. 0),
          sa_t_rate = (\<lambda>k. 0), sa_sum_t_rate = (\<lambda>k. 0), sa_t_time = (\<lambda>k. 0),
          sa_errcode = None\<rparr>)"

text \<open>The loop over the threads; \<open>rng\<close> is the generator seeded with the seed of the run,
  from which the seed of each thread is drawn.\<close>

function threads_init ::
  "'g gsl_rng_ops \<Rightarrow> SimInf_solver_args \<Rightarrow> int \<Rightarrow> 'g \<Rightarrow> 'g SimInf_thread_args list" where
  "threads_init ops args i rng =
     (if i < args_Nthread args then
        (let (seed, rng) = gsl_rng_uniform_int ops rng (gsl_rng_max ops rng)
         in thread_args_init args i (gsl_rng_set ops seed) # threads_init ops args (i + 1) rng)
      else [])"
  by pat_completeness auto
termination
  by (relation "measure (\<lambda>(ops, args, i, rng). nat (args_Nthread args - i))")
     (auto split: prod.splits)

declare threads_init.simps [simp del]

text \<open>The shared memory at the start: \<open>uu\<close> is \<open>u0\<close>, \<open>vv_1\<close> is \<open>v0\<close>, \<open>update_node\<close> is
  zero, and the first column of the output holds \<open>u0\<close> and \<open>v0\<close>.\<close>

definition shared_init :: "SimInf_solver_args \<Rightarrow> shared" where
  "shared_init args =
     \<lparr>sh_uu = (\<lambda>k. if 0 \<le> k \<and> k < args_Nn args * args_Nc args then args_u0 args k else 0),
      sh_update_node = (\<lambda>k. 0),
      sh_vv = (\<lambda>b. case b of
                 VV_1 \<Rightarrow> (\<lambda>k. if 0 \<le> k \<and> k < args_Nn args * args_Nd args
                              then args_v0 args k else 0)
               | VV_2 \<Rightarrow> (\<lambda>k. 0)),
      sh_U = (\<lambda>k. if args_U args \<and> 0 \<le> k \<and> k < args_Nn args * args_Nc args
                   then args_u0 args k else 0),
      sh_V = (\<lambda>k. if args_V args \<and> 0 \<le> k \<and> k < args_Nn args * args_Nd args
                   then args_v0 args k else 0),
      sh_prU = (\<lambda>k. if \<not> args_U args \<and> args_jcU args 0 \<le> k \<and> k < args_jcU args 1
                     then real_of_int (args_u0 args (args_irU args k)) else 0),
      sh_prV = (\<lambda>k. if \<not> args_V args \<and> args_jcV args 0 \<le> k \<and> k < args_jcV args 1
                     then args_v0 args (args_irV args k) else 0)\<rparr>"

text \<open>\<open>SimInf_run_solver_ssa\<close>: the return value and the memory that the run leaves (its
  output). The allocations are taken to succeed. The result is \<open>None\<close> when the behaviour
  of the code is undefined or the run does not end.\<close>

definition SimInf_run_solver_ssa ::
  "'g gsl_rng_ops \<Rightarrow> SimInf_solver_args \<Rightarrow> (error option \<times> shared) option" where
  "SimInf_run_solver_ssa ops args =
     (let sh = shared_init args;
          sim_args = threads_init ops args 0 (gsl_rng_set ops (args_seed args))
      in case SimInf_split_events sim_args args of
           None \<Rightarrow> None
         | Some (Some err, sim_args) \<Rightarrow> Some (Some err, sh)
         | Some (None, sim_args) \<Rightarrow>
             (case SimInf_solver_ssa ops sim_args sh of
                None \<Rightarrow> None
              | Some (code, sim_args, sh) \<Rightarrow> Some (code, sh)))"

subsection \<open>The partition of the nodes and of the events\<close>









section \<open>Properties of a run\<close>










section \<open>Properties of the sampler\<close>

lemma int_interval_split: "i < hi \<Longrightarrow> {i..<hi} = insert i {i + 1..<(hi::int)}"
  by auto

lemma sum_int_lower: "i < hi \<Longrightarrow> sum f {i..<hi::int} = f i + sum f {i + 1..<hi}"
  by (simp add: int_interval_split)

lemma sum_int_upper: "lo \<le> i \<Longrightarrow> sum f {lo..<i + 1::int} = sum f {lo..<i} + f i"
proof -
  assume "lo \<le> i"
  then have "{lo..<i + 1} = insert i {lo..<i}" by auto
  then show ?thesis by (simp add: add.commute)
qed

lemma count_individuals_fst:
  "fst (count_individuals irE Nc u node i hi (a, k)) =
     a + (\<Sum>j = i..<hi. u (node * Nc + irE j))"
proof (induction irE Nc u node i hi "(a, k)" arbitrary: a k rule: count_individuals.induct)
  case (1 irE Nc u node i hi Nindividuals Nkinds)
  show ?case
  proof (cases "i < hi")
    case True
    then show ?thesis
      using "1"(1)[OF True refl] 
      by (subst count_individuals.simps) (simp add: sum_int_lower Let_def)
  next
    case False
    then show ?thesis by (subst count_individuals.simps) simp
  qed
qed

lemma count_individuals_snd:
  "snd (count_individuals irE Nc u node i hi (a, k)) =
     k + (\<Sum>j = i..<hi. if u (node * Nc + irE j) > 0 then 1 else 0)"
proof (induction irE Nc u node i hi "(a, k)" arbitrary: a k rule: count_individuals.induct)
  case (1 irE Nc u node i hi Nindividuals Nkinds)
  show ?case
  proof (cases "i < hi")
    case True
    then show ?thesis
      using "1"(1)[OF True refl]
      by (subst count_individuals.simps) (simp add: sum_int_lower Let_def)
  next
    case False
    then show ?thesis by (subst count_individuals.simps) simp
  qed
qed

lemma include_all_eq:
  "include_all irE Nc u node i hi ind c =
     (if c \<in> irE ` {i..<hi} then u (node * Nc + c) else ind c)"
proof (induction irE Nc u node i hi ind rule: include_all.induct)
  case (1 irE Nc u node i hi ind)
  show ?case
  proof (cases "i < hi")
    case True
    have unf: "include_all irE Nc u node i hi ind c =
        include_all irE Nc u node (i + 1) hi (ind(irE i := u (node * Nc + irE i))) c"
      using True by (subst include_all.simps) simp
    have img: "irE ` {i..<hi} = insert (irE i) (irE ` {i + 1..<hi})"
      using True by (simp add: int_interval_split)
    show ?thesis
      unfolding unf "1"[OF True] img by auto
  next
    case False
    then show ?thesis by (subst include_all.simps) simp
  qed
qed

lemma sum_fun_upd_inj:
  fixes f :: "int \<Rightarrow> int"
  assumes "finite S" "inj_on g S" "j \<in> S"
  shows "(\<Sum>i\<in>S. (f(g j := v)) (g i)) = (\<Sum>i\<in>S. f (g i)) - f (g j) + v"
proof -
  have ne: "\<And>i. i \<in> S - {j} \<Longrightarrow> g i \<noteq> g j"
    using assms(2,3) by (auto simp: inj_on_def)
  have 1: "(\<Sum>i\<in>S. (f(g j := v)) (g i)) = v + (\<Sum>i\<in>S - {j}. (f(g j := v)) (g i))"
    using assms(1,3) by (simp add: sum.remove)
  have 2: "(\<Sum>i\<in>S - {j}. (f(g j := v)) (g i)) = (\<Sum>i\<in>S - {j}. f (g i))"
    using ne by (intro sum.cong) auto
  have 3: "(\<Sum>i\<in>S. f (g i)) = f (g j) + (\<Sum>i\<in>S - {j}. f (g i))"
    using assms(1,3) by (simp add: sum.remove)
  show ?thesis unfolding 1 2 3 by simp
qed

lemma no_kind_sum_zero:
  fixes w :: "int \<Rightarrow> int"
  assumes "\<forall>j\<in>{i..<hi}. 0 \<le> w j"
    and "(\<Sum>j = i..<hi. if w j > 0 then 1 else 0) = (0::int)"
  shows "\<forall>j\<in>{i..<hi}. w j = 0"
proof -
  have "\<forall>j\<in>{i..<hi}. (if w j > 0 then 1 else 0) = (0::int)"
    using assms(2) by (subst (asm) sum_nonneg_eq_0_iff) auto
  then show ?thesis using assms(1) by (auto split: if_splits simp: order.order_iff_strict)
qed

lemma one_kind_props:
  assumes "\<forall>j\<in>{i..<hi}. 0 \<le> u (node * Nc + irE j)"
    and "(\<Sum>j = i..<hi. if u (node * Nc + irE j) > 0 then 1 else 0) = (1::int)"
  shows "\<exists>j\<in>{i..<hi}. one_kind irE Nc u node n i hi ind = ind(irE j := n) \<and>
           u (node * Nc + irE j) = (\<Sum>j = i..<hi. u (node * Nc + irE j))"
  using assms
proof (induction irE Nc u node n i hi ind rule: one_kind.induct)
  case (1 irE Nc u node n i hi ind)
  have lt: "i < hi" using "1.prems"(2) by (cases "i < hi") auto
  show ?case
  proof (cases "u (node * Nc + irE i) > 0")
    case True
    have z: "(\<Sum>j = i + 1..<hi. if u (node * Nc + irE j) > 0 then 1 else 0) = (0::int)"
      using "1.prems"(2) True lt by (simp add: sum_int_lower)
    have "\<forall>j\<in>{i + 1..<hi}. u (node * Nc + irE j) = 0"
      using no_kind_sum_zero[OF _ z] "1.prems"(1) by auto
    then have "(\<Sum>j = i + 1..<hi. u (node * Nc + irE j)) = 0" by simp
    then have "u (node * Nc + irE i) = (\<Sum>j = i..<hi. u (node * Nc + irE j))"
      using lt by (simp add: sum_int_lower)
    moreover have "one_kind irE Nc u node n i hi ind = ind(irE i := n)"
      using True lt by (subst one_kind.simps) simp
    ultimately show ?thesis using lt by (intro bexI[of _ i]) auto
  next
    case False
    then have u0: "u (node * Nc + irE i) = 0" using "1.prems"(1) lt by force
    have unf: "one_kind irE Nc u node n i hi ind = one_kind irE Nc u node n (i + 1) hi ind"
      using False lt by (subst one_kind.simps) simp
    have p1: "\<forall>j\<in>{i + 1..<hi}. 0 \<le> u (node * Nc + irE j)" using "1.prems"(1) by auto
    have p2: "(\<Sum>j = i + 1..<hi. if u (node * Nc + irE j) > 0 then 1 else 0) = (1::int)"
      using "1.prems"(2) False lt by (simp add: sum_int_lower)
    obtain j where j: "j \<in> {i + 1..<hi}"
        "one_kind irE Nc u node n (i + 1) hi ind = ind(irE j := n)"
        "u (node * Nc + irE j) = (\<Sum>j = i + 1..<hi. u (node * Nc + irE j))"
      using "1.IH"[OF lt False p1 p2] by blast
    show ?thesis
      using j u0 lt unfolding unf by (intro bexI[of _ j]) (auto simp: sum_int_lower)
  qed
qed

lemma urn_search_found:
  assumes "lo \<le> i" "i < hi"
    and "cum = (\<Sum>j = lo..<i + 1. real_of_int (u_tmp (irE j)))"
    and "rand > (\<Sum>j = lo..<i. real_of_int (u_tmp (irE j)))"
    and "rand \<le> (\<Sum>j = lo..<hi. real_of_int (u_tmp (irE j)))"
  shows "i \<le> urn_search irE u_tmp hi rand i cum \<and> urn_search irE u_tmp hi rand i cum < hi \<and>
         u_tmp (irE (urn_search irE u_tmp hi rand i cum)) > 0"
  using assms
proof (induction irE u_tmp hi rand i cum rule: urn_search.induct)
  case (1 irE u_tmp hi rand i cum)
  show ?case
  proof (cases "rand > cum")
    case True
    have "i + 1 \<noteq> hi" using True "1.prems" by auto
    then have lt: "i + 1 < hi" using "1.prems" by simp
    have c: "cum + real_of_int (u_tmp (irE (i + 1))) = (\<Sum>j = lo..<i + 1 + 1. real_of_int (u_tmp (irE j)))"
      using "1.prems"(1) unfolding "1.prems"(3)
      by (subst sum_int_upper[of lo "i + 1"]) simp_all
    have r: "rand > (\<Sum>j = lo..<i + 1. real_of_int (u_tmp (irE j)))"
      using True "1.prems"(3) by simp
    have IH: "i + 1 \<le> urn_search irE u_tmp hi rand (i + 1) (cum + real_of_int (u_tmp (irE (i + 1)))) \<and>
          urn_search irE u_tmp hi rand (i + 1) (cum + real_of_int (u_tmp (irE (i + 1)))) < hi \<and>
          u_tmp (irE (urn_search irE u_tmp hi rand (i + 1) (cum + real_of_int (u_tmp (irE (i + 1)))))) > 0"
      using "1.IH"[OF _ _ lt c r "1.prems"(5)] True "1.prems"(1,2) by simp
    have unf: "urn_search irE u_tmp hi rand i cum =
          urn_search irE u_tmp hi rand (i + 1) (cum + real_of_int (u_tmp (irE (i + 1))))"
      using True "1.prems"(2) by (subst urn_search.simps) simp
    show ?thesis unfolding unf using IH by simp
  next
    case False
    then have unf: "urn_search irE u_tmp hi rand i cum = i"
      by (subst urn_search.simps) simp
    have "real_of_int (u_tmp (irE i)) = cum - (\<Sum>j = lo..<i. real_of_int (u_tmp (irE j)))"
      using "1.prems"(1,3) sum_int_upper[of lo i "\<lambda>j. real_of_int (u_tmp (irE j))"] by simp
    then have "real_of_int (u_tmp (irE i)) > 0" using False "1.prems"(4) by linarith
    then show ?thesis unfolding unf using "1.prems"(2) by simp
  qed
qed

lemma urn_loop_inv:
  assumes inj: "inj_on irE {lo..<hi}"
    and rng: "\<forall>g n. 0 < n \<longrightarrow>
        0 < double_mul ops (fst (gsl_rng_uniform_pos ops g)) (real_of_int n) \<and>
        double_mul ops (fst (gsl_rng_uniform_pos ops g)) (real_of_int n) \<le> real_of_int n"
    and "k = nat n" "0 \<le> n" "n \<le> Nind"
    and "(\<Sum>i = lo..<hi. u_tmp (irE i)) = Nind"
    and "\<forall>i\<in>{lo..<hi}. 0 \<le> u_tmp (irE i)"
    and "urn_loop ops irE lo hi Nind n (ind, u_tmp, g) = (ind', u_tmp', g')"
  shows "(\<forall>i\<in>{lo..<hi}. 0 \<le> u_tmp' (irE i) \<and> ind (irE i) \<le> ind' (irE i) \<and>
            u_tmp' (irE i) + ind' (irE i) = u_tmp (irE i) + ind (irE i)) \<and>
         (\<Sum>i = lo..<hi. u_tmp' (irE i)) = Nind - n \<and>
         (\<forall>c. c \<notin> irE ` {lo..<hi} \<longrightarrow> ind' c = ind c)"
  using assms(3-)
proof (induction k arbitrary: n Nind ind u_tmp g)
  case 0
  then have "n = 0" by simp
  then have "urn_loop ops irE lo hi Nind n (ind, u_tmp, g) = (ind, u_tmp, g)"
    by (subst urn_loop.simps) simp
  then show ?case using "0.prems" \<open>n = 0\<close> by simp
next
  case (Suc k)
  then have npos: "n > 0" by simp
  obtain r g1 where rg: "gsl_rng_uniform_pos ops g = (r, g1)" by (cases "gsl_rng_uniform_pos ops g")
  define rand where "rand = double_mul ops r (real_of_int Nind)"
  define i where "i = urn_search irE u_tmp hi rand lo (real_of_int (u_tmp (irE lo)))"
  define u1 where "u1 = u_tmp(irE i := u_tmp (irE i) - 1)"
  define ind1 where "ind1 = ind(irE i := ind (irE i) + 1)"
  have unf: "urn_loop ops irE lo hi Nind n (ind, u_tmp, g) =
             urn_loop ops irE lo hi (Nind - 1) (n - 1) (ind1, u1, g1)"
    using npos rg by (subst urn_loop.simps) (simp add: Let_def rand_def i_def u1_def ind1_def)
  have Npos: "Nind > 0" using npos Suc.prems by simp
  have lohi: "lo < hi" using Npos Suc.prems(4) by (cases "lo < hi") auto
  have tot: "(\<Sum>j = lo..<hi. real_of_int (u_tmp (irE j))) = real_of_int Nind"
    using Suc.prems(4) by (simp flip: of_int_sum)
  have r: "r = fst (gsl_rng_uniform_pos ops g)" using rg by simp
  have rand_pos: "rand > 0" and rand_lt: "rand \<le> real_of_int Nind"
    using rng Npos unfolding rand_def r by blast+
  have found: "lo \<le> i \<and> i < hi \<and> u_tmp (irE i) > 0"
    unfolding i_def
    by (rule urn_search_found[of lo]) (use lohi rand_pos rand_lt tot in \<open>simp_all add: sum_int_lower\<close>)
  then have iS: "i \<in> {lo..<hi}" by simp
  have s1: "(\<Sum>j = lo..<hi. u1 (irE j)) = Nind - 1"
    unfolding u1_def using sum_fun_upd_inj[OF _ inj iS, of u_tmp] Suc.prems(4) by simp
  have nn1: "\<forall>j\<in>{lo..<hi}. 0 \<le> u1 (irE j)"
    using Suc.prems(5) found by (auto simp: u1_def)
  have IH: "(\<forall>j\<in>{lo..<hi}. 0 \<le> u_tmp' (irE j) \<and> ind1 (irE j) \<le> ind' (irE j) \<and>
            u_tmp' (irE j) + ind' (irE j) = u1 (irE j) + ind1 (irE j)) \<and>
         (\<Sum>j = lo..<hi. u_tmp' (irE j)) = Nind - 1 - (n - 1) \<and>
         (\<forall>c. c \<notin> irE ` {lo..<hi} \<longrightarrow> ind' c = ind1 c)"
    by (rule Suc.IH[of "n - 1" "Nind - 1" u1 ind1 g1])
       (use Suc.prems npos s1 nn1 unf in auto)
  have a: "\<And>j. u1 (irE j) + ind1 (irE j) = u_tmp (irE j) + ind (irE j)"
    by (auto simp: u1_def ind1_def)
  have b: "\<And>j. ind (irE j) \<le> ind1 (irE j)" by (auto simp: ind1_def)
  have c: "\<And>c. c \<notin> irE ` {lo..<hi} \<Longrightarrow> ind1 c = ind c"
    using iS by (auto simp: ind1_def)
  show ?case
  proof (intro conjI ballI allI impI)
    fix j assume j: "j \<in> {lo..<hi}"
    show "0 \<le> u_tmp' (irE j)" using IH j by blast
    have "ind1 (irE j) \<le> ind' (irE j)" using IH j by blast
    then show "ind (irE j) \<le> ind' (irE j)" using b[of j] by linarith
    show "u_tmp' (irE j) + ind' (irE j) = u_tmp (irE j) + ind (irE j)"
      using IH j a[of j] by simp
  next
    show "(\<Sum>j = lo..<hi. u_tmp' (irE j)) = Nind - n" using IH by simp
  next
    fix c assume "c \<notin> irE ` {lo..<hi}"
    then show "ind' c = ind c" using IH c by simp
  qed
qed


lemma count_individuals_eq:
  "count_individuals irE Nc u node (jcE select) (jcE (select + 1)) (0, 0) =
     (select_total irE jcE Nc u node select,
      \<Sum>j\<in>select_column jcE select. if u (node * Nc + irE j) > 0 then 1 else 0)"
  by (rule prod_eqI) (simp_all add: count_individuals_fst count_individuals_snd
       select_total_def select_column_def)

lemma sample_select_unfold:
  "SimInf_sample_select ops irE jcE Nc u node select n proportion individuals u_tmp g =
    (let lo = jcE select; hi = jcE (select + 1);
         X = select_total irE jcE Nc u node select;
         K = (\<Sum>j\<in>select_column jcE select. if u (node * Nc + irE j) > 0 then 1 else (0::int));
         m = n_actual ops irE jcE Nc u node select n proportion;
         ind0 = memset0 individuals Nc
     in if hi - lo \<le> 0 \<or> m > X \<or> m < 0 then (Some SIMINF_ERR_SAMPLE_SELECT, ind0, u_tmp, g)
     else if m = 0 then (None, ind0, u_tmp, g)
     else if X = m then (None, include_all irE Nc u node lo hi ind0, u_tmp, g)
     else if hi - lo = 1 then (None, ind0(irE lo := m), u_tmp, g)
     else if K = 1 then (None, one_kind irE Nc u node m lo hi ind0, u_tmp, g)
     else if hi - lo = 2 then
       (let (h, g1) = gsl_ran_hypergeometric ops g (u (node * Nc + irE lo)) (u (node * Nc + irE (lo + 1))) m;
            ind1 = ind0(irE lo := h);
            ind2 = ind1(irE (lo + 1) := m - ind1 (irE lo))
        in (None, ind2, u_tmp, g1))
     else
       (let u1 = memcpy_node u_tmp u node Nc;
            (ind1, u2, g1) = urn_loop ops irE lo hi X m (ind0, u1, g)
        in (None, ind1, u2, g1)))"
  by (simp add: SimInf_sample_select_def count_individuals_eq n_actual_def Let_def
      split: prod.splits)

lemma sample_select_errcode:
  "fst (SimInf_sample_select ops irE jcE Nc u node select n proportion individuals u_tmp rng) =
     (if jcE (select + 1) - jcE select \<le> 0 \<or>
         n_actual ops irE jcE Nc u node select n proportion >
           select_total irE jcE Nc u node select \<or>
         n_actual ops irE jcE Nc u node select n proportion < 0
      then Some SIMINF_ERR_SAMPLE_SELECT else None)"
  by (simp add: SimInf_sample_select_def count_individuals_eq n_actual_def Let_def
      split: prod.splits)

lemma urn_case_post:
  assumes unif: "\<forall>g n. 0 < n \<longrightarrow>
        0 < double_mul ops (fst (gsl_rng_uniform_pos ops g)) (real_of_int n) \<and>
        double_mul ops (fst (gsl_rng_uniform_pos ops g)) (real_of_int n) \<le> real_of_int n"
    and inj: "inj_on irE {lo..<hi}"
    and rows: "\<forall>i\<in>{lo..<hi}. 0 \<le> irE i \<and> irE i < Nc"
    and nn: "\<forall>i\<in>{lo..<hi}. 0 \<le> u (node * Nc + irE i)"
    and m0: "0 \<le> m" and mX: "m \<le> X"
    and X: "X = (\<Sum>i = lo..<hi. u (node * Nc + irE i))"
    and res': "urn_loop ops irE lo hi X m (memset0 individuals Nc, memcpy_node u_tmp u node Nc, g) =
       (ind', u_tmp', g')"
  shows "(\<forall>c. 0 \<le> c \<and> c < Nc \<and> c \<notin> irE ` {lo..<hi} \<longrightarrow> ind' c = 0) \<and>
         (\<forall>i\<in>{lo..<hi}. 0 \<le> ind' (irE i) \<and> ind' (irE i) \<le> u (node * Nc + irE i)) \<and>
         (\<Sum>i = lo..<hi. ind' (irE i)) = m"
proof -
  define ind0 where "ind0 = memset0 individuals Nc"
  define u1 where "u1 = memcpy_node u_tmp u node Nc"
  have ind0S: "\<And>i. i \<in> {lo..<hi} \<Longrightarrow> ind0 (irE i) = 0"
    using rows by (simp add: ind0_def memset0_def)
  have ind0c: "\<And>c. 0 \<le> c \<and> c < Nc \<Longrightarrow> ind0 c = 0" by (simp add: ind0_def memset0_def)
  have u1S: "\<And>i. i \<in> {lo..<hi} \<Longrightarrow> u1 (irE i) = u (node * Nc + irE i)"
    using rows by (simp add: u1_def memcpy_node_def)
  have s1: "(\<Sum>i = lo..<hi. u1 (irE i)) = X"
    unfolding X by (rule sum.cong) (simp_all add: u1S)
  have nn1: "\<forall>i\<in>{lo..<hi}. 0 \<le> u1 (irE i)" using nn u1S by simp
  have inv: "(\<forall>i\<in>{lo..<hi}. 0 \<le> u_tmp' (irE i) \<and> ind0 (irE i) \<le> ind' (irE i) \<and>
            u_tmp' (irE i) + ind' (irE i) = u1 (irE i) + ind0 (irE i)) \<and>
         (\<Sum>i = lo..<hi. u_tmp' (irE i)) = X - m \<and>
         (\<forall>c. c \<notin> irE ` {lo..<hi} \<longrightarrow> ind' c = ind0 c)"
    using res' unfolding ind0_def[symmetric] u1_def[symmetric]
    by (rule urn_loop_inv[OF inj unif refl m0 mX s1 nn1])
  have each: "\<And>i. i \<in> {lo..<hi} \<Longrightarrow> ind' (irE i) = u (node * Nc + irE i) - u_tmp' (irE i)"
  proof -
    fix i assume i: "i \<in> {lo..<hi}"
    have "u_tmp' (irE i) + ind' (irE i) = u1 (irE i) + ind0 (irE i)" using inv i by blast
    then show "ind' (irE i) = u (node * Nc + irE i) - u_tmp' (irE i)"
      using u1S[OF i] ind0S[OF i] by linarith
  qed
  have "(\<Sum>i = lo..<hi. ind' (irE i)) = (\<Sum>i = lo..<hi. u (node * Nc + irE i) - u_tmp' (irE i))"
    by (rule sum.cong) (simp_all add: each)
  also have "\<dots> = X - (X - m)"
    using inv unfolding sum_subtractf X by simp
  finally have sum: "(\<Sum>i = lo..<hi. ind' (irE i)) = m" by simp
  have bnd: "\<forall>i\<in>{lo..<hi}. 0 \<le> ind' (irE i) \<and> ind' (irE i) \<le> u (node * Nc + irE i)"
  proof
    fix i assume i: "i \<in> {lo..<hi}"
    have "0 \<le> u_tmp' (irE i)" "ind0 (irE i) \<le> ind' (irE i)" using inv i by blast+
    then show "0 \<le> ind' (irE i) \<and> ind' (irE i) \<le> u (node * Nc + irE i)"
      using each[OF i] ind0S[OF i] by linarith
  qed
  have out: "\<forall>c. 0 \<le> c \<and> c < Nc \<and> c \<notin> irE ` {lo..<hi} \<longrightarrow> ind' c = 0"
    using inv ind0c by simp
  show ?thesis using sum bnd out by blast
qed

lemma sample_select_post:
  assumes rng: "gsl_rng_contract ops"
    and dm: "double_mul_contract ops"
    and wf: "select_wf irE jcE Nc select"
    and nonneg: "\<forall>i\<in>select_column jcE select. 0 \<le> u (node * Nc + irE i)"
    and res: "SimInf_sample_select ops irE jcE Nc u node select n proportion individuals u_tmp g =
       (None, ind', u_tmp', g')"
  shows "(\<forall>c. 0 \<le> c \<and> c < Nc \<and> c \<notin> irE ` select_column jcE select \<longrightarrow> ind' c = 0) \<and>
         (\<forall>i\<in>select_column jcE select. 0 \<le> ind' (irE i) \<and> ind' (irE i) \<le> u (node * Nc + irE i)) \<and>
         (\<Sum>i\<in>select_column jcE select. ind' (irE i)) =
            n_actual ops irE jcE Nc u node select n proportion"
proof -
  define lo where "lo = jcE select"
  define hi where "hi = jcE (select + 1)"
  define S where "S = select_column jcE select"
  define X where "X = select_total irE jcE Nc u node select"
  define K where "K = (\<Sum>j\<in>S. if u (node * Nc + irE j) > 0 then 1 else (0::int))"
  define m where "m = n_actual ops irE jcE Nc u node select n proportion"
  define ind0 where "ind0 = memset0 individuals Nc"
  have S: "S = {lo..<hi}" by (simp add: S_def select_column_def lo_def hi_def)
  have finS: "finite S" by (simp add: S)
  have inj: "inj_on irE S" and rows: "\<forall>i\<in>S. 0 \<le> irE i \<and> irE i < Nc"
    using wf by (simp_all add: select_wf_def S_def)
  have nn: "\<forall>i\<in>S. 0 \<le> u (node * Nc + irE i)" using nonneg by (simp add: S_def)
  have X: "X = (\<Sum>i\<in>S. u (node * Nc + irE i))" by (simp add: X_def select_total_def S_def)
  have ind0S: "\<forall>i\<in>S. ind0 (irE i) = 0" using rows by (simp add: ind0_def memset0_def)
  have ind0c: "\<forall>c. 0 \<le> c \<and> c < Nc \<longrightarrow> ind0 c = 0" by (simp add: ind0_def memset0_def)
  have unf: "SimInf_sample_select ops irE jcE Nc u node select n proportion individuals u_tmp g =
    (if hi - lo \<le> 0 \<or> m > X \<or> m < 0 then (Some SIMINF_ERR_SAMPLE_SELECT, ind0, u_tmp, g)
     else if m = 0 then (None, ind0, u_tmp, g)
     else if X = m then (None, include_all irE Nc u node lo hi ind0, u_tmp, g)
     else if hi - lo = 1 then (None, ind0(irE lo := m), u_tmp, g)
     else if K = 1 then (None, one_kind irE Nc u node m lo hi ind0, u_tmp, g)
     else if hi - lo = 2 then
       (let (h, g1) = gsl_ran_hypergeometric ops g (u (node * Nc + irE lo)) (u (node * Nc + irE (lo + 1))) m;
            ind1 = ind0(irE lo := h);
            ind2 = ind1(irE (lo + 1) := m - ind1 (irE lo))
        in (None, ind2, u_tmp, g1))
     else
       (let u1 = memcpy_node u_tmp u node Nc;
            (ind1, u2, g1) = urn_loop ops irE lo hi X m (ind0, u1, g)
        in (None, ind1, u2, g1)))"
    unfolding sample_select_unfold lo_def hi_def X_def K_def m_def ind0_def S_def Let_def ..
  have noerr: "\<not> (hi - lo \<le> 0 \<or> m > X \<or> m < 0)"
    using res unfolding unf by (auto split: if_splits)
  then have lohi: "lo < hi" and mX: "m \<le> X" and m0: "0 \<le> m" by auto
  have goal: "(\<forall>c. 0 \<le> c \<and> c < Nc \<and> c \<notin> irE ` S \<longrightarrow> ind' c = 0) \<and>
         (\<forall>i\<in>S. 0 \<le> ind' (irE i) \<and> ind' (irE i) \<le> u (node * Nc + irE i)) \<and>
         (\<Sum>i\<in>S. ind' (irE i)) = m"
  proof -
    consider (zero) "m = 0" | (all) "m \<noteq> 0" "X = m" | (one) "m \<noteq> 0" "X \<noteq> m" "hi - lo = 1"
      | (kind) "m \<noteq> 0" "X \<noteq> m" "hi - lo \<noteq> 1" "K = 1"
      | (hyp) "m \<noteq> 0" "X \<noteq> m" "hi - lo \<noteq> 1" "K \<noteq> 1" "hi - lo = 2"
      | (urn) "m \<noteq> 0" "X \<noteq> m" "hi - lo \<noteq> 1" "K \<noteq> 1" "hi - lo \<noteq> 2"
      by blast
    then show ?thesis
    proof cases
      case zero
      then have "ind' = ind0" using res noerr unfolding unf by simp
      then show ?thesis using ind0S ind0c zero nn by simp
    next
      case all
      then have i': "ind' = include_all irE Nc u node lo hi ind0"
        using res noerr unfolding unf by simp
      have "\<And>c. ind' c = (if c \<in> irE ` S then u (node * Nc + c) else ind0 c)"
        unfolding i' S by (rule include_all_eq)
      then show ?thesis using ind0c nn all X by auto
    next
      case one
      then have i': "ind' = ind0(irE lo := m)" using res noerr unfolding unf by simp
      have S1: "S = {lo}" using one(3) S by auto
      show ?thesis using ind0c mX m0 X ind0S unfolding i' S1 by simp
    next
      case kind
      then have i': "ind' = one_kind irE Nc u node m lo hi ind0"
        using res noerr unfolding unf by simp
      obtain j where j: "j \<in> S" "ind' = ind0(irE j := m)" "u (node * Nc + irE j) = X"
        using one_kind_props[of lo hi u node Nc irE m ind0] nn kind(4)
        unfolding i' S K_def X by blast
      have "(\<Sum>i\<in>S. ind' (irE i)) = (\<Sum>i\<in>S. ind0 (irE i)) - ind0 (irE j) + m"
        unfolding j(2) by (rule sum_fun_upd_inj[OF finS inj j(1)])
      then have sum: "(\<Sum>i\<in>S. ind' (irE i)) = m" using ind0S j(1) by simp
      have "\<forall>i\<in>S. 0 \<le> ind' (irE i) \<and> ind' (irE i) \<le> u (node * Nc + irE i)"
        using j ind0S nn m0 mX by (auto simp: fun_upd_def)
      moreover have "\<forall>c. 0 \<le> c \<and> c < Nc \<and> c \<notin> irE ` S \<longrightarrow> ind' c = 0"
        using j ind0c by auto
      ultimately show ?thesis using sum by blast
    next
      case hyp
      define x0 where "x0 = u (node * Nc + irE lo)"
      define x1 where "x1 = u (node * Nc + irE (lo + 1))"
      obtain h g1 where hg: "gsl_ran_hypergeometric ops g x0 x1 m = (h, g1)"
        by (cases "gsl_ran_hypergeometric ops g x0 x1 m")
      have S2: "S = {lo, lo + 1}" using hyp(5) S by auto
      have ne: "irE lo \<noteq> irE (lo + 1)" using inj unfolding S2 by (auto simp: inj_on_def)
      have x: "0 \<le> x0" "0 \<le> x1" "X = x0 + x1" using nn X unfolding S2 x0_def x1_def by auto
      have hb: "0 \<le> h \<and> m - x1 \<le> h \<and> h \<le> x0 \<and> h \<le> m"
        using rng x m0 mX hg unfolding gsl_rng_contract_def by (metis fst_conv)
      have i': "ind' = (ind0(irE lo := h))(irE (lo + 1) := m - h)"
        using res noerr hyp hg ne unfolding unf x0_def x1_def by (simp add: Let_def)
      have "ind' (irE lo) = h" "ind' (irE (lo + 1)) = m - h" using ne unfolding i' by auto
      moreover have "\<forall>c. 0 \<le> c \<and> c < Nc \<and> c \<notin> irE ` S \<longrightarrow> ind' c = 0"
        using ind0c unfolding i' S2 by auto
      ultimately show ?thesis using hb x unfolding S2 x0_def x1_def by auto
    next
      case urn
      have res': "urn_loop ops irE lo hi X m (memset0 individuals Nc, memcpy_node u_tmp u node Nc, g) =
          (ind', u_tmp', g')"
        using res noerr urn unfolding unf ind0_def by (simp add: Let_def split: prod.splits)
      have unif: "\<forall>g n. 0 < n \<longrightarrow>
          0 < double_mul ops (fst (gsl_rng_uniform_pos ops g)) (real_of_int n) \<and>
          double_mul ops (fst (gsl_rng_uniform_pos ops g)) (real_of_int n) \<le> real_of_int n"
        using dm by (simp add: double_mul_contract_def)
      show ?thesis
        unfolding S
        by (rule urn_case_post[OF unif inj[unfolded S] rows[unfolded S] nn[unfolded S] m0 mX
              X[unfolded S] res'])
    qed
  qed
  then show ?thesis by (simp add: S_def m_def)
qed

text \<open>The sum of the sample and the compartments outside the column do not depend on the
  sign of the counts.\<close>

lemma one_kind_some:
  assumes "(\<Sum>j = i..<hi. if u (node * Nc + irE j) > 0 then 1 else 0) \<ge> (1::int)"
  shows "\<exists>j\<in>{i..<hi}. one_kind irE Nc u node n i hi ind = ind(irE j := n)"
  using assms
proof (induction irE Nc u node n i hi ind rule: one_kind.induct)
  case (1 irE Nc u node n i hi ind)
  have lt: "i < hi" using "1.prems" by (cases "i < hi") auto
  show ?case
  proof (cases "u (node * Nc + irE i) > 0")
    case True
    have "one_kind irE Nc u node n i hi ind = ind(irE i := n)"
      using True lt by (subst one_kind.simps) simp
    then show ?thesis using lt by (intro bexI[of _ i]) auto
  next
    case False
    have unf: "one_kind irE Nc u node n i hi ind = one_kind irE Nc u node n (i + 1) hi ind"
      using False lt by (subst one_kind.simps) simp
    have p: "(\<Sum>j = i + 1..<hi. if u (node * Nc + irE j) > 0 then 1 else 0) \<ge> (1::int)"
      using "1.prems" False lt by (simp add: sum_int_lower)
    obtain j where j: "j \<in> {i + 1..<hi}"
        "one_kind irE Nc u node n (i + 1) hi ind = ind(irE j := n)"
      using "1.IH"[OF lt False p] by blast
    show ?thesis using j lt unfolding unf by (intro bexI[of _ j]) auto
  qed
qed

lemma urn_search_in_column:
  assumes "lo \<le> i" "i < hi"
    and "cum = (\<Sum>j = lo..<i + 1. real_of_int (u_tmp (irE j)))"
    and "rand \<le> (\<Sum>j = lo..<hi. real_of_int (u_tmp (irE j)))"
  shows "i \<le> urn_search irE u_tmp hi rand i cum \<and> urn_search irE u_tmp hi rand i cum < hi"
  using assms
proof (induction irE u_tmp hi rand i cum rule: urn_search.induct)
  case (1 irE u_tmp hi rand i cum)
  show ?case
  proof (cases "rand > cum")
    case True
    have "i + 1 \<noteq> hi" using True "1.prems" by auto
    then have lt: "i + 1 < hi" using "1.prems" by simp
    have c: "cum + real_of_int (u_tmp (irE (i + 1))) =
             (\<Sum>j = lo..<i + 1 + 1. real_of_int (u_tmp (irE j)))"
      using "1.prems"(1) unfolding "1.prems"(3)
      by (subst sum_int_upper[of lo "i + 1"]) simp_all
    have IH: "i + 1 \<le> urn_search irE u_tmp hi rand (i + 1) (cum + real_of_int (u_tmp (irE (i + 1)))) \<and>
          urn_search irE u_tmp hi rand (i + 1) (cum + real_of_int (u_tmp (irE (i + 1)))) < hi"
      using "1.IH"[OF _ _ lt c "1.prems"(4)] True "1.prems"(1,2) by simp
    have unf: "urn_search irE u_tmp hi rand i cum =
          urn_search irE u_tmp hi rand (i + 1) (cum + real_of_int (u_tmp (irE (i + 1))))"
      using True "1.prems"(2) by (subst urn_search.simps) simp
    show ?thesis unfolding unf using IH by simp
  next
    case False
    then have unf: "urn_search irE u_tmp hi rand i cum = i"
      by (subst urn_search.simps) simp
    show ?thesis unfolding unf using "1.prems"(2) by simp
  qed
qed

lemma urn_loop_sum:
  assumes inj: "inj_on irE {lo..<hi}"
    and rng: "\<forall>g n. 0 < n \<longrightarrow>
        double_mul ops (fst (gsl_rng_uniform_pos ops g)) (real_of_int n) \<le> real_of_int n"
    and "k = nat n" "0 \<le> n" "n \<le> Nind"
    and "(\<Sum>i = lo..<hi. u_tmp (irE i)) = Nind"
    and "urn_loop ops irE lo hi Nind n (ind, u_tmp, g) = (ind', u_tmp', g')"
  shows "(\<Sum>i = lo..<hi. ind' (irE i)) = (\<Sum>i = lo..<hi. ind (irE i)) + n \<and>
         (\<Sum>i = lo..<hi. u_tmp' (irE i)) = Nind - n \<and>
         (\<forall>c. c \<notin> irE ` {lo..<hi} \<longrightarrow> ind' c = ind c)"
  using assms(3-)
proof (induction k arbitrary: n Nind ind u_tmp g)
  case 0
  then have "n = 0" by simp
  then have "urn_loop ops irE lo hi Nind n (ind, u_tmp, g) = (ind, u_tmp, g)"
    by (subst urn_loop.simps) simp
  then show ?case using "0.prems" \<open>n = 0\<close> by simp
next
  case (Suc k)
  then have npos: "n > 0" by simp
  obtain r g1 where rg: "gsl_rng_uniform_pos ops g = (r, g1)" by (cases "gsl_rng_uniform_pos ops g")
  define rand where "rand = double_mul ops r (real_of_int Nind)"
  define i where "i = urn_search irE u_tmp hi rand lo (real_of_int (u_tmp (irE lo)))"
  define u1 where "u1 = u_tmp(irE i := u_tmp (irE i) - 1)"
  define ind1 where "ind1 = ind(irE i := ind (irE i) + 1)"
  have unf: "urn_loop ops irE lo hi Nind n (ind, u_tmp, g) =
             urn_loop ops irE lo hi (Nind - 1) (n - 1) (ind1, u1, g1)"
    using npos rg by (subst urn_loop.simps) (simp add: Let_def rand_def i_def u1_def ind1_def)
  have Npos: "Nind > 0" using npos Suc.prems by simp
  have lohi: "lo < hi" using Npos Suc.prems(4) by (cases "lo < hi") auto
  have tot: "(\<Sum>j = lo..<hi. real_of_int (u_tmp (irE j))) = real_of_int Nind"
    using Suc.prems(4) by (simp flip: of_int_sum)
  have r: "r = fst (gsl_rng_uniform_pos ops g)" using rg by simp
  have rand_le: "rand \<le> real_of_int Nind" using rng Npos unfolding rand_def r by blast
  have found: "lo \<le> i \<and> i < hi"
    unfolding i_def
    by (rule urn_search_in_column[of lo]) (use lohi rand_le tot in \<open>simp_all add: sum_int_lower\<close>)
  then have iS: "i \<in> {lo..<hi}" by simp
  have s1: "(\<Sum>j = lo..<hi. u1 (irE j)) = Nind - 1"
    unfolding u1_def using sum_fun_upd_inj[OF _ inj iS, of u_tmp] Suc.prems(4) by simp
  have s2: "(\<Sum>j = lo..<hi. ind1 (irE j)) = (\<Sum>j = lo..<hi. ind (irE j)) + 1"
    unfolding ind1_def using sum_fun_upd_inj[OF _ inj iS, of ind] by simp
  have IH: "(\<Sum>i = lo..<hi. ind' (irE i)) = (\<Sum>i = lo..<hi. ind1 (irE i)) + (n - 1) \<and>
         (\<Sum>i = lo..<hi. u_tmp' (irE i)) = Nind - 1 - (n - 1) \<and>
         (\<forall>c. c \<notin> irE ` {lo..<hi} \<longrightarrow> ind' c = ind1 c)"
    by (rule Suc.IH[of "n - 1" "Nind - 1" u1 ind1 g1])
       (use Suc.prems npos s1 unf in auto)
  have c: "\<And>c. c \<notin> irE ` {lo..<hi} \<Longrightarrow> ind1 c = ind c"
    using iS by (auto simp: ind1_def)
  show ?case using IH s2 c by simp
qed

lemma sample_select_sum:
  assumes dm: "double_mul_contract ops"
    and wf: "select_wf irE jcE Nc select"
    and res: "SimInf_sample_select ops irE jcE Nc u node select n proportion individuals u_tmp g =
       (None, ind', u_tmp', g')"
  shows "(\<forall>c. 0 \<le> c \<and> c < Nc \<and> c \<notin> irE ` select_column jcE select \<longrightarrow> ind' c = 0) \<and>
         (\<Sum>i\<in>select_column jcE select. ind' (irE i)) =
            n_actual ops irE jcE Nc u node select n proportion"
proof -
  define lo where "lo = jcE select"
  define hi where "hi = jcE (select + 1)"
  define S where "S = select_column jcE select"
  define X where "X = select_total irE jcE Nc u node select"
  define K where "K = (\<Sum>j\<in>S. if u (node * Nc + irE j) > 0 then 1 else (0::int))"
  define m where "m = n_actual ops irE jcE Nc u node select n proportion"
  define ind0 where "ind0 = memset0 individuals Nc"
  have S: "S = {lo..<hi}" by (simp add: S_def select_column_def lo_def hi_def)
  have finS: "finite S" by (simp add: S)
  have inj: "inj_on irE S" and rows: "\<forall>i\<in>S. 0 \<le> irE i \<and> irE i < Nc"
    using wf by (simp_all add: select_wf_def S_def)
  have X: "X = (\<Sum>i\<in>S. u (node * Nc + irE i))" by (simp add: X_def select_total_def S_def)
  have ind0S: "\<forall>i\<in>S. ind0 (irE i) = 0" using rows by (simp add: ind0_def memset0_def)
  have ind0c: "\<forall>c. 0 \<le> c \<and> c < Nc \<longrightarrow> ind0 c = 0" by (simp add: ind0_def memset0_def)
  have unf: "SimInf_sample_select ops irE jcE Nc u node select n proportion individuals u_tmp g =
    (if hi - lo \<le> 0 \<or> m > X \<or> m < 0 then (Some SIMINF_ERR_SAMPLE_SELECT, ind0, u_tmp, g)
     else if m = 0 then (None, ind0, u_tmp, g)
     else if X = m then (None, include_all irE Nc u node lo hi ind0, u_tmp, g)
     else if hi - lo = 1 then (None, ind0(irE lo := m), u_tmp, g)
     else if K = 1 then (None, one_kind irE Nc u node m lo hi ind0, u_tmp, g)
     else if hi - lo = 2 then
       (let (h, g1) = gsl_ran_hypergeometric ops g (u (node * Nc + irE lo)) (u (node * Nc + irE (lo + 1))) m;
            ind1 = ind0(irE lo := h);
            ind2 = ind1(irE (lo + 1) := m - ind1 (irE lo))
        in (None, ind2, u_tmp, g1))
     else
       (let u1 = memcpy_node u_tmp u node Nc;
            (ind1, u2, g1) = urn_loop ops irE lo hi X m (ind0, u1, g)
        in (None, ind1, u2, g1)))"
    unfolding sample_select_unfold lo_def hi_def X_def K_def m_def ind0_def S_def Let_def ..
  have noerr: "\<not> (hi - lo \<le> 0 \<or> m > X \<or> m < 0)"
    using res unfolding unf by (auto split: if_splits)
  then have lohi: "lo < hi" and mX: "m \<le> X" and m0: "0 \<le> m" by auto
  have goal: "(\<forall>c. 0 \<le> c \<and> c < Nc \<and> c \<notin> irE ` S \<longrightarrow> ind' c = 0) \<and>
         (\<Sum>i\<in>S. ind' (irE i)) = m"
  proof -
    consider (zero) "m = 0" | (all) "m \<noteq> 0" "X = m" | (one) "m \<noteq> 0" "X \<noteq> m" "hi - lo = 1"
      | (kind) "m \<noteq> 0" "X \<noteq> m" "hi - lo \<noteq> 1" "K = 1"
      | (hyp) "m \<noteq> 0" "X \<noteq> m" "hi - lo \<noteq> 1" "K \<noteq> 1" "hi - lo = 2"
      | (urn) "m \<noteq> 0" "X \<noteq> m" "hi - lo \<noteq> 1" "K \<noteq> 1" "hi - lo \<noteq> 2"
      by blast
    then show ?thesis
    proof cases
      case zero
      then have "ind' = ind0" using res noerr unfolding unf by simp
      then show ?thesis using ind0S ind0c zero by simp
    next
      case all
      then have i': "ind' = include_all irE Nc u node lo hi ind0"
        using res noerr unfolding unf by simp
      have e: "\<And>c. ind' c = (if c \<in> irE ` S then u (node * Nc + c) else ind0 c)"
        unfolding i' S by (rule include_all_eq)
      have "(\<Sum>i\<in>S. ind' (irE i)) = (\<Sum>i\<in>S. u (node * Nc + irE i))"
        by (rule sum.cong) (simp_all add: e)
      then show ?thesis using ind0c all X e by simp
    next
      case one
      then have i': "ind' = ind0(irE lo := m)" using res noerr unfolding unf by simp
      have S1: "S = {lo}" using one(3) S by auto
      show ?thesis using ind0c unfolding i' S1 by simp
    next
      case kind
      then have i': "ind' = one_kind irE Nc u node m lo hi ind0"
        using res noerr unfolding unf by simp
      obtain j where j: "j \<in> S" "ind' = ind0(irE j := m)"
        using one_kind_some[where i = lo and hi = hi and u = u and node = node and Nc = Nc
            and irE = irE and n = m and ind = ind0] kind(4)
        unfolding i' S K_def by auto
      have "(\<Sum>i\<in>S. ind' (irE i)) = (\<Sum>i\<in>S. ind0 (irE i)) - ind0 (irE j) + m"
        unfolding j(2) by (rule sum_fun_upd_inj[OF finS inj j(1)])
      then have sum: "(\<Sum>i\<in>S. ind' (irE i)) = m" using ind0S j(1) by simp
      have "\<forall>c. 0 \<le> c \<and> c < Nc \<and> c \<notin> irE ` S \<longrightarrow> ind' c = 0"
        using j ind0c by auto
      then show ?thesis using sum by blast
    next
      case hyp
      define x0 where "x0 = u (node * Nc + irE lo)"
      define x1 where "x1 = u (node * Nc + irE (lo + 1))"
      obtain h g1 where hg: "gsl_ran_hypergeometric ops g x0 x1 m = (h, g1)"
        by (cases "gsl_ran_hypergeometric ops g x0 x1 m")
      have S2: "S = {lo, lo + 1}" using hyp(5) S by auto
      have ne: "irE lo \<noteq> irE (lo + 1)" using inj unfolding S2 by (auto simp: inj_on_def)
      have i': "ind' = (ind0(irE lo := h))(irE (lo + 1) := m - h)"
        using res noerr hyp hg ne unfolding unf x0_def x1_def by (simp add: Let_def)
      have "ind' (irE lo) = h" "ind' (irE (lo + 1)) = m - h" using ne unfolding i' by auto
      moreover have "\<forall>c. 0 \<le> c \<and> c < Nc \<and> c \<notin> irE ` S \<longrightarrow> ind' c = 0"
        using ind0c unfolding i' S2 by auto
      ultimately show ?thesis unfolding S2 by auto
    next
      case urn
      define u1 where "u1 = memcpy_node u_tmp u node Nc"
      have res': "urn_loop ops irE lo hi X m (ind0, u1, g) = (ind', u_tmp', g')"
        using res noerr urn unfolding unf u1_def by (simp add: Let_def split: prod.splits)
      have unif: "\<forall>g n. 0 < n \<longrightarrow>
          double_mul ops (fst (gsl_rng_uniform_pos ops g)) (real_of_int n) \<le> real_of_int n"
        using dm by (simp add: double_mul_contract_def)
      have u1S: "\<And>i. i \<in> S \<Longrightarrow> u1 (irE i) = u (node * Nc + irE i)"
        using rows by (simp add: u1_def memcpy_node_def)
      have s1: "(\<Sum>i = lo..<hi. u1 (irE i)) = X"
        unfolding X S by (rule sum.cong) (use u1S S in simp_all)
      have inv: "(\<Sum>i = lo..<hi. ind' (irE i)) = (\<Sum>i = lo..<hi. ind0 (irE i)) + m \<and>
         (\<Sum>i = lo..<hi. u_tmp' (irE i)) = X - m \<and>
         (\<forall>c. c \<notin> irE ` {lo..<hi} \<longrightarrow> ind' c = ind0 c)"
        by (rule urn_loop_sum[OF inj[unfolded S] unif refl m0 mX s1 res'])
      have "(\<Sum>i = lo..<hi. ind0 (irE i)) = 0" using ind0S unfolding S by simp
      then show ?thesis using inv ind0c unfolding S by simp
    qed
  qed
  then show ?thesis by (simp add: S_def m_def)
qed


section \<open>Claims about the sampler\<close>

lemma rng_const_contract: "0 < r \<Longrightarrow> r < 1 \<Longrightarrow> gsl_rng_contract (rng_const r)"
  by (auto simp: gsl_rng_contract_def rng_const_def)

lemma rng_const_double_mul: "0 < r \<Longrightarrow> r < 1 \<Longrightarrow> double_mul_contract (rng_const r)"
  by (auto simp: double_mul_contract_def rng_const_def mult_le_cancel_right1)

lemma int_interval_numeral_0_1: "{0..<1::int} = {0}" by auto
lemma int_interval_numeral_0_2: "{0..<2::int} = {0, 1}" by auto
lemma int_interval_numeral_0_3: "{0..<3::int} = {0, 1, 2}" by auto

text \<open>
  C7. \<open>SimInf_sample_select\<close> returns the error code \<open>SIMINF_ERR_SAMPLE_SELECT\<close> if and
  only if, with \<open>n\<close> replaced by \<open>round(proportion * X)\<close> when the argument \<open>n\<close> is 0, the
  select column lists no compartment (K \<open>\<le>\<close> 0), or \<open>n\<close> exceeds the number X of individuals
  in the compartments of the column, or \<open>n < 0\<close>; in every other case it returns 0. Here
  \<open>proportion * X\<close> is the C expression, the product of two doubles with its rounding
  (\<open>double_mul\<close>), whatever this rounding is. The function is total: the equation gives
  its error code for every input.
\<close>

theorem sample_select_error_iff:
  "fst (SimInf_sample_select ops irE jcE Nc u node select n proportion individuals u_tmp rng) =
     (if jcE (select + 1) - jcE select \<le> 0 \<or>
         n_actual ops irE jcE Nc u node select n proportion >
           select_total irE jcE Nc u node select \<or>
         n_actual ops irE jcE Nc u node select n proportion < 0
      then Some SIMINF_ERR_SAMPLE_SELECT else None)"
  by (rule sample_select_errcode)

text \<open>
  Two inputs at which the rounding of the product decides. With 6 individuals and a
  proportion whose product with 6 is the double 6.5 (the exact product is below 6.5),
  \<open>round\<close> gives 7 and the function returns the error code. With 10 individuals and a
  proportion whose product with 10 is the double 3.5, 4 individuals are sampled.
\<close>

lemma sample_select_rounded_product_error:
  assumes "double_mul ops p 6 = 13 / 2"
  shows "fst (SimInf_sample_select ops (array_of [0]) (array_of [0, 1]) 1 (array_of [6]) 0 0 0 p
           individuals u_tmp rng) = Some SIMINF_ERR_SAMPLE_SELECT"
proof -
  have col: "select_column (array_of [0, 1]) 0 = {0}"
    by (auto simp: select_column_def array_of_def)
  have tot: "select_total (array_of [0]) (array_of [0, 1]) 1 (array_of [6]) 0 0 = 6"
    unfolding select_total_def col by (simp add: array_of_def)
  show ?thesis
    by (simp add: sample_select_errcode n_actual_def tot assms C_round_def)
qed

lemma sample_select_rounded_product_count:
  assumes "double_mul ops p 10 = 7 / 2"
  shows "n_actual ops (array_of [0]) (array_of [0, 1]) 1 (array_of [10]) 0 0 0 p = 4"
proof -
  have col: "select_column (array_of [0, 1]) 0 = {0}"
    by (auto simp: select_column_def array_of_def)
  have tot: "select_total (array_of [0]) (array_of [0, 1]) 1 (array_of [10]) 0 0 = 10"
    unfolding select_total_def col by (simp add: array_of_def)
  show ?thesis by (simp add: n_actual_def tot assms C_round_def)
qed

text \<open>
  The claim C2 does not hold of every call that returns 0. On a node with the counts
  \<open>- 1\<close> and 3 in the two compartments of the column, and \<open>n = 2\<close>, the number of
  individuals equals \<open>n\<close>: the function includes them all and returns 0 with
  \<open>individuals[0] = - 1\<close>.
\<close>

theorem sample_select_negative_count_counterexample:
  "gsl_rng_contract (rng_const (1 / 2)) \<and>
   select_wf (array_of [0, 1]) (array_of [0, 2]) 2 0 \<and>
   fst (SimInf_sample_select (rng_const (1 / 2)) (array_of [0, 1]) (array_of [0, 2]) 2
          (array_of [- 1, 3]) 0 0 2 0 (array_of []) (array_of []) ()) = None \<and>
   fst (snd (SimInf_sample_select (rng_const (1 / 2)) (array_of [0, 1]) (array_of [0, 2]) 2
          (array_of [- 1, 3]) 0 0 2 0 (array_of []) (array_of []) ())) 0 = - 1"
proof -
  have col: "select_column (array_of [0, 2]) 0 = {0, 1}"
    by (auto simp: select_column_def array_of_def)
  have h1: "gsl_rng_contract (rng_const (1 / 2))" by (rule rng_const_contract) simp_all
  have h2: "select_wf (array_of [0, 1]) (array_of [0, 2]) 2 0"
    unfolding select_wf_def col by (simp add: array_of_def)
  have tot: "select_total (array_of [0, 1]) (array_of [0, 2]) 2 (array_of [- 1, 3]) 0 0 = 2"
    unfolding select_total_def col by (simp add: array_of_def)
  have r: "fst (SimInf_sample_select (rng_const (1 / 2)) (array_of [0, 1]) (array_of [0, 2]) 2
          (array_of [- 1, 3]) 0 0 2 0 (array_of []) (array_of []) ()) = None \<and>
   fst (snd (SimInf_sample_select (rng_const (1 / 2)) (array_of [0, 1]) (array_of [0, 2]) 2
          (array_of [- 1, 3]) 0 0 2 0 (array_of []) (array_of []) ())) 0 = - 1"
    by (simp add: sample_select_unfold n_actual_def tot Let_def)
       (simp add: array_of_def include_all_eq int_interval_numeral_0_2)
  show ?thesis using h1 h2 r by blast
qed

text \<open>
  C2, as the code has it. When \<open>SimInf_sample_select\<close> returns 0, \<open>individuals[c] = 0\<close> for
  every compartment \<open>c\<close> of \<open>0 ..< Nc\<close> that the select column does not list, and the sum
  of \<open>individuals[c_i]\<close> over the compartments \<open>c_i\<close> of the column is the number of
  individuals to sample (\<open>n\<close>, or \<open>round(proportion * X)\<close> in doubles when \<open>n\<close> is 0). When
  moreover no count of the node in a compartment of the column is negative,
  \<open>0 \<le> individuals[c_i] \<le> u[node * Nc + c_i]\<close> for every compartment of the column. The
  select column lists distinct compartments of \<open>0 ..< Nc\<close>, the generator of the GSL does
  what its documentation says, and the product of a draw and a positive \<open>int\<close> \<open>n\<close> is at
  most \<open>n\<close> and positive.
\<close>

theorem sample_select_individuals:
  assumes rng: "gsl_rng_contract ops"
    and dm: "double_mul_contract ops"
    and wf: "select_wf irE jcE Nc select"
    and res: "SimInf_sample_select ops irE jcE Nc u node select n proportion individuals u_tmp rng =
       (None, individuals', u_tmp', rng')"
  shows "(\<forall>c. 0 \<le> c \<and> c < Nc \<and> c \<notin> irE ` select_column jcE select \<longrightarrow> individuals' c = 0) \<and>
         sampled_total irE jcE select individuals' =
            n_actual ops irE jcE Nc u node select n proportion \<and>
         ((\<forall>i\<in>select_column jcE select. 0 \<le> u (node * Nc + irE i)) \<longrightarrow>
            (\<forall>i\<in>select_column jcE select.
               0 \<le> individuals' (irE i) \<and> individuals' (irE i) \<le> u (node * Nc + irE i)))"
proof -
  note S = sample_select_sum[OF dm wf res]
  have a: "\<forall>c. 0 \<le> c \<and> c < Nc \<and> c \<notin> irE ` select_column jcE select \<longrightarrow> individuals' c = 0"
    using S by blast
  have b: "sampled_total irE jcE select individuals' =
            n_actual ops irE jcE Nc u node select n proportion"
    unfolding sampled_total_def using S by blast
  have c: "\<forall>i\<in>select_column jcE select.
               0 \<le> individuals' (irE i) \<and> individuals' (irE i) \<le> u (node * Nc + irE i)"
    if nn: "\<forall>i\<in>select_column jcE select. 0 \<le> u (node * Nc + irE i)"
    using sample_select_post[OF rng dm wf nn res] by blast
  show ?thesis using a b c by blast
qed

text \<open>The theorem at a column of three compartments with counts 2, 1 and 3, from which the
  urn draw samples 2 individuals.\<close>

theorem sample_select_individuals_witness:
  "gsl_rng_contract (rng_const (1 / 2)) \<and> double_mul_contract (rng_const (1 / 2)) \<and>
   select_wf (array_of [0, 1, 2]) (array_of [0, 3]) 3 0 \<and>
   fst (SimInf_sample_select (rng_const (1 / 2)) (array_of [0, 1, 2]) (array_of [0, 3]) 3
          (array_of [2, 1, 3]) 0 0 2 0 (array_of []) (array_of []) ()) = None \<and>
   sampled_total (array_of [0, 1, 2]) (array_of [0, 3]) 0
     (fst (snd (SimInf_sample_select (rng_const (1 / 2)) (array_of [0, 1, 2]) (array_of [0, 3]) 3
          (array_of [2, 1, 3]) 0 0 2 0 (array_of []) (array_of []) ()))) = 2 \<and>
   0 \<le> fst (snd (SimInf_sample_select (rng_const (1 / 2)) (array_of [0, 1, 2]) (array_of [0, 3]) 3
          (array_of [2, 1, 3]) 0 0 2 0 (array_of []) (array_of []) ())) 1 \<and>
   fst (snd (SimInf_sample_select (rng_const (1 / 2)) (array_of [0, 1, 2]) (array_of [0, 3]) 3
          (array_of [2, 1, 3]) 0 0 2 0 (array_of []) (array_of []) ())) 1 \<le> 1"
proof -
  let ?R = "SimInf_sample_select (rng_const (1 / 2)) (array_of [0, 1, 2]) (array_of [0, 3]) 3
          (array_of [2, 1, 3]) 0 0 2 0 (array_of []) (array_of []) ()"
  have col: "select_column (array_of [0, 3]) 0 = {0, 1, 2}"
    by (auto simp: select_column_def array_of_def)
  have h1: "gsl_rng_contract (rng_const (1 / 2))" by (rule rng_const_contract) simp_all
  have h1': "double_mul_contract (rng_const (1 / 2))" by (rule rng_const_double_mul) simp_all
  have h2: "select_wf (array_of [0, 1, 2]) (array_of [0, 3]) 3 0"
    unfolding select_wf_def col by (simp add: array_of_def)
  have h3: "\<forall>i\<in>select_column (array_of [0, 3]) 0.
      0 \<le> array_of [2, 1, 3] (0 * 3 + array_of [0, 1, 2] i)"
    unfolding col by (simp add: array_of_def)
  have tot: "select_total (array_of [0, 1, 2]) (array_of [0, 3]) 3 (array_of [2, 1, 3]) 0 0 = 6"
    unfolding select_total_def col by (simp add: array_of_def)
  have h4: "fst ?R = None"
    by (simp add: sample_select_errcode n_actual_def tot) (simp add: array_of_def)
  have h5: "?R = (None, fst (snd ?R), fst (snd (snd ?R)), snd (snd (snd ?R)))"
    using h4 by (metis prod.collapse)
  note T = sample_select_individuals[OF h1 h1' h2 h5]
  have "sampled_total (array_of [0, 1, 2]) (array_of [0, 3]) 0 (fst (snd ?R)) =
        n_actual (rng_const (1 / 2)) (array_of [0, 1, 2]) (array_of [0, 3]) 3
          (array_of [2, 1, 3]) 0 0 2 0"
    using T by blast
  then have a: "sampled_total (array_of [0, 1, 2]) (array_of [0, 3]) 0 (fst (snd ?R)) = 2"
    by (simp add: n_actual_def)
  have "\<forall>i\<in>select_column (array_of [0, 3]) 0.
          0 \<le> fst (snd ?R) (array_of [0, 1, 2] i) \<and>
          fst (snd ?R) (array_of [0, 1, 2] i) \<le> array_of [2, 1, 3] (0 * 3 + array_of [0, 1, 2] i)"
    using T h3 by blast
  then have b: "0 \<le> fst (snd ?R) 1 \<and> fst (snd ?R) 1 \<le> 1"
    unfolding col by (simp add: array_of_def)
  show ?thesis using h1 h1' h2 h4 a b by blast
qed

text \<open>
  The specification reads the test \<open>n == 0\<close> the wrong way round. With \<open>n = 0\<close> and
  \<open>proportion = 1\<close> on a compartment of 5 individuals the code samples
  \<open>round(1 * 5) = 5\<close> individuals, not 0; with \<open>n = 2\<close> and \<open>proportion = 1\<close> it samples 2,
  not \<open>round(1 * 5) = 5\<close>.
\<close>

theorem sample_select_n_zero_counterexample:
  "sampled_total (array_of [0]) (array_of [0, 1]) 0
     (fst (snd (SimInf_sample_select (rng_const (1 / 2)) (array_of [0]) (array_of [0, 1]) 1
        (array_of [5]) 0 0 0 1 (array_of []) (array_of []) ()))) = 5 \<and>
   sampled_total (array_of [0]) (array_of [0, 1]) 0
     (fst (snd (SimInf_sample_select (rng_const (1 / 2)) (array_of [0]) (array_of [0, 1]) 1
        (array_of [5]) 0 0 2 1 (array_of []) (array_of []) ()))) = 2 \<and>
   C_round (double_mul (rng_const (1 / 2)) 1
     (real_of_int (select_total (array_of [0]) (array_of [0, 1]) 1 (array_of [5]) 0 0))) = 5"
proof -
  have col: "select_column (array_of [0, 1]) 0 = {0}"
    by (auto simp: select_column_def array_of_def)
  have tot: "select_total (array_of [0]) (array_of [0, 1]) 1 (array_of [5]) 0 0 = 5"
    unfolding select_total_def col by (simp add: array_of_def)
  have dm: "double_mul (rng_const (1 / 2)) = (\<lambda>x y. x * y)" by (simp add: rng_const_def)
  show ?thesis
    unfolding sampled_total_def col
    by (simp add: sample_select_unfold n_actual_def tot C_round_def Let_def dm)
       (simp add: array_of_def include_all.simps memset0_def)
qed

text \<open>
  C3, as the code has it (and as the comment above the function says): when the argument
  \<open>n\<close> is 0 the number of individuals sampled is \<open>round(proportion * X)\<close>, X the number
  of individuals in the compartments of the select column and the product that of the
  two doubles, with its rounding; otherwise it is the argument \<open>n\<close>, and \<open>proportion\<close> is
  ignored. This holds of every call that returns 0, for a select column that lists
  distinct compartments of \<open>0 ..< Nc\<close>.
\<close>

theorem sample_select_count:
  assumes dm: "double_mul_contract ops"
    and wf: "select_wf irE jcE Nc select"
    and res: "SimInf_sample_select ops irE jcE Nc u node select n proportion individuals u_tmp rng =
       (None, individuals', u_tmp', rng')"
  shows "sampled_total irE jcE select individuals' =
           (if n = 0
            then C_round (double_mul ops proportion
                            (real_of_int (select_total irE jcE Nc u node select)))
            else n) \<and>
         (n \<noteq> 0 \<longrightarrow>
            SimInf_sample_select ops irE jcE Nc u node select n p individuals u_tmp rng =
            SimInf_sample_select ops irE jcE Nc u node select n proportion individuals u_tmp rng)"
proof -
  have "sampled_total irE jcE select individuals' =
          n_actual ops irE jcE Nc u node select n proportion"
    unfolding sampled_total_def using sample_select_sum[OF dm wf res] by blast
  moreover have "n \<noteq> 0 \<longrightarrow>
            SimInf_sample_select ops irE jcE Nc u node select n p individuals u_tmp rng =
            SimInf_sample_select ops irE jcE Nc u node select n proportion individuals u_tmp rng"
    by (simp add: SimInf_sample_select_def)
  ultimately show ?thesis by (simp add: n_actual_def)
qed

text \<open>The theorem at \<open>n = 0\<close> and \<open>proportion = 1 / 2\<close> on counts 2, 1 and 3: 3 individuals.\<close>

theorem sample_select_count_witness:
  "double_mul_contract (rng_const (1 / 2)) \<and>
   select_wf (array_of [0, 1, 2]) (array_of [0, 3]) 3 0 \<and>
   fst (SimInf_sample_select (rng_const (1 / 2)) (array_of [0, 1, 2]) (array_of [0, 3]) 3
          (array_of [2, 1, 3]) 0 0 0 (1 / 2) (array_of []) (array_of []) ()) = None \<and>
   sampled_total (array_of [0, 1, 2]) (array_of [0, 3]) 0
     (fst (snd (SimInf_sample_select (rng_const (1 / 2)) (array_of [0, 1, 2]) (array_of [0, 3]) 3
          (array_of [2, 1, 3]) 0 0 0 (1 / 2) (array_of []) (array_of []) ()))) = 3"
proof -
  let ?R = "SimInf_sample_select (rng_const (1 / 2)) (array_of [0, 1, 2]) (array_of [0, 3]) 3
          (array_of [2, 1, 3]) 0 0 0 (1 / 2) (array_of []) (array_of []) ()"
  have col: "select_column (array_of [0, 3]) 0 = {0, 1, 2}"
    by (auto simp: select_column_def array_of_def)
  have h1: "double_mul_contract (rng_const (1 / 2))" by (rule rng_const_double_mul) simp_all
  have h2: "select_wf (array_of [0, 1, 2]) (array_of [0, 3]) 3 0"
    unfolding select_wf_def col by (simp add: array_of_def)
  have tot: "select_total (array_of [0, 1, 2]) (array_of [0, 3]) 3 (array_of [2, 1, 3]) 0 0 = 6"
    unfolding select_total_def col by (simp add: array_of_def)
  have dm: "double_mul (rng_const (1 / 2)) = (\<lambda>x y. x * y)" by (simp add: rng_const_def)
  have h4: "fst ?R = None"
    by (simp add: sample_select_errcode n_actual_def tot C_round_def dm) (simp add: array_of_def)
  have h5: "?R = (None, fst (snd ?R), fst (snd (snd ?R)), snd (snd (snd ?R)))"
    using h4 by (metis prod.collapse)
  have "sampled_total (array_of [0, 1, 2]) (array_of [0, 3]) 0 (fst (snd ?R)) =
        (if (0::int) = 0 then C_round (double_mul (rng_const (1 / 2)) (1 / 2) (real_of_int
            (select_total (array_of [0, 1, 2]) (array_of [0, 3]) 3 (array_of [2, 1, 3]) 0 0)))
         else 0)"
    using sample_select_count[OF h1 h2 h5] by blast
  then have "sampled_total (array_of [0, 1, 2]) (array_of [0, 3]) 0 (fst (snd ?R)) = 3"
    by (simp add: tot C_round_def dm)
  then show ?thesis using h1 h2 h4 by blast
qed

section \<open>Properties of the scheduled events\<close>

lemma sum_fun_upd_set:
  fixes f :: "int \<Rightarrow> int"
  assumes "finite A"
  shows "(\<Sum>k\<in>A. (f(a := v)) k) = (\<Sum>k\<in>A. f k) + (if a \<in> A then v - f a else 0)"
proof (cases "a \<in> A")
  case True
  have 1: "(\<Sum>k\<in>A. (f(a := v)) k) = v + (\<Sum>k\<in>A - {a}. (f(a := v)) k)"
    using assms True by (simp add: sum.remove)
  have 2: "(\<Sum>k\<in>A - {a}. (f(a := v)) k) = (\<Sum>k\<in>A - {a}. f k)"
    by (intro sum.cong) auto
  have 3: "(\<Sum>k\<in>A. f k) = f a + (\<Sum>k\<in>A - {a}. f k)"
    using assms True by (simp add: sum.remove)
  show ?thesis unfolding 1 2 3 using True by simp
next
  case False
  have "(\<Sum>k\<in>A. (f(a := v)) k) = (\<Sum>k\<in>A. f k)"
    using False by (intro sum.cong) auto
  then show ?thesis using False by simp
qed

lemma E2_transfer_loop_sum:
  assumes "finite A"
    and "E2_transfer_loop irE Nc N ind node dest shift i hi uu = (None, uu')"
  shows "(\<Sum>k\<in>A. uu' k) =
     (\<Sum>k\<in>A. uu k) +
     (\<Sum>j = i..<hi. if dest * Nc + irE j + (if shift < 0 then 0 else N (shift * Nc + irE j)) \<in> A
                    then ind (irE j) else 0) -
     (\<Sum>j = i..<hi. if node * Nc + irE j \<in> A then ind (irE j) else 0)"
  using assms(2)
proof (induction irE Nc N ind node dest shift i hi uu rule: E2_transfer_loop.induct)
  case (1 irE Nc N ind node dest shift i hi uu)
  show ?case
  proof (cases "i < hi")
    case False
    then have "uu' = uu" using "1.prems" by (subst (asm) E2_transfer_loop.simps) simp
    then show ?thesis using False by simp
  next
    case True
    define jj where "jj = irE i"
    define k1 where "k1 = dest * Nc + jj"
    define k2 where "k2 = node * Nc + jj"
    define ll where "ll = (if shift < 0 then 0 else N (shift * Nc + jj))"
    define uu1 where "uu1 = uu(k1 + ll := uu (k1 + ll) + ind jj)"
    define uu2 where "uu2 = uu1(k2 := uu1 k2 - ind jj)"
    have step: "E2_transfer_loop irE Nc N ind node dest shift i hi uu =
       (if uu1 (k1 + ll) < 0 then (Some SIMINF_ERR_NEGATIVE_STATE, uu1)
        else if uu2 k2 < 0 then (Some SIMINF_ERR_NEGATIVE_STATE, uu2)
        else E2_transfer_loop irE Nc N ind node dest shift (i + 1) hi uu2)"
      using True
      by (subst E2_transfer_loop.simps)
         (simp add: Let_def jj_def k1_def k2_def ll_def uu1_def uu2_def)
    have c1: "\<not> uu1 (k1 + ll) < 0" and c2: "\<not> uu2 k2 < 0"
      and rest: "E2_transfer_loop irE Nc N ind node dest shift (i + 1) hi uu2 = (None, uu')"
      using "1.prems" unfolding step by (auto split: if_splits)
    have IH: "(\<Sum>k\<in>A. uu' k) =
     (\<Sum>k\<in>A. uu2 k) +
     (\<Sum>j = i + 1..<hi. if dest * Nc + irE j + (if shift < 0 then 0 else N (shift * Nc + irE j)) \<in> A
                    then ind (irE j) else 0) -
     (\<Sum>j = i + 1..<hi. if node * Nc + irE j \<in> A then ind (irE j) else 0)"
      by (rule "1.IH"[OF True jj_def k1_def k2_def ll_def uu1_def c1 uu2_def c2 rest])
    have s1: "(\<Sum>k\<in>A. uu1 k) = (\<Sum>k\<in>A. uu k) + (if k1 + ll \<in> A then ind jj else 0)"
      unfolding uu1_def by (subst sum_fun_upd_set[OF assms(1)]) simp
    have s2: "(\<Sum>k\<in>A. uu2 k) = (\<Sum>k\<in>A. uu1 k) - (if k2 \<in> A then ind jj else 0)"
      unfolding uu2_def by (subst sum_fun_upd_set[OF assms(1)]) simp
    show ?thesis
      unfolding IH s2 s1 sum_int_lower[OF True]
      by (simp add: jj_def k1_def k2_def ll_def)
  qed
qed

lemma cell_in_range:
  fixes node :: int
  assumes "0 \<le> node" "node < Nn" "0 \<le> c" "c < Nc"
  shows "0 \<le> node * Nc + c \<and> node * Nc + c < Nn * Nc"
proof -
  have "0 \<le> node * Nc" using assms by simp
  moreover have "(node + 1) * Nc \<le> Nn * Nc"
    using assms by (intro mult_right_mono) auto
  ultimately show ?thesis using assms by (simp add: algebra_simps)
qed

lemma cell_in_node:
  fixes node :: int
  assumes "0 \<le> c" "c < Nc"
  shows "node * Nc + c \<in> {dest * Nc..<(dest + 1) * Nc} \<longleftrightarrow> node = dest"
proof
  assume "node = dest"
  then show "node * Nc + c \<in> {dest * Nc..<(dest + 1) * Nc}"
    using assms by (simp add: algebra_simps)
next
  assume a: "node * Nc + c \<in> {dest * Nc..<(dest + 1) * Nc}"
  have Nc: "0 < Nc" using assms by simp
  show "node = dest"
  proof (rule ccontr)
    assume "node \<noteq> dest"
    then consider "node + 1 \<le> dest" | "dest + 1 \<le> node" by linarith
    then show False
    proof cases
      case 1
      then have "(node + 1) * Nc \<le> dest * Nc" using Nc by (intro mult_right_mono) auto
      then show False using a assms by (simp add: algebra_simps)
    next
      case 2
      then have "(dest + 1) * Nc \<le> node * Nc" using Nc by (intro mult_right_mono) auto
      then show False using a assms by (simp add: algebra_simps)
    qed
  qed
qed

text \<open>
  C9. An enter event whose select column is empty (\<open>jcE[select] = jcE[select + 1]\<close>)
  changes no compartment of \<open>u\<close> and raises no error, and yet sets
  \<open>update_node[node] = 1\<close> and is consumed: the body of the loop does not break, it
  returns the thread with \<open>E1_index\<close> advanced by one and nothing else changed, and the
  shared memory with \<open>update_node[node] = 1\<close> and nothing else changed; the loop goes on
  from there.
\<close>

theorem E1_enter_empty_select:
  assumes "sa_E1_index sa < ev_len (sa_E1 sa)"
    and "real_of_int (ev_time (sa_E1 sa) (sa_E1_index sa)) \<le> sa_tt sa"
    and "sa_errcode sa = None"
    and "ev_event (sa_E1 sa) (sa_E1_index sa) = ENTER_EVENT"
    and "sa_jcE sa (ev_select (sa_E1 sa) (sa_E1_index sa)) =
         sa_jcE sa (ev_select (sa_E1 sa) (sa_E1_index sa) + 1)"
  shows "E1_body ops sa sh =
           (False, sa\<lparr>sa_E1_index := sa_E1_index sa + 1\<rparr>,
            sh\<lparr>sh_update_node := (sh_update_node sh)(ev_node (sa_E1 sa) (sa_E1_index sa) := 1)\<rparr>) \<and>
         SimInf_process_E1_events ops sa sh =
           SimInf_process_E1_events ops (sa\<lparr>sa_E1_index := sa_E1_index sa + 1\<rparr>)
             (sh\<lparr>sh_update_node := (sh_update_node sh)(ev_node (sa_E1 sa) (sa_E1_index sa) := 1)\<rparr>)"
proof -
  have body: "E1_body ops sa sh =
           (False, sa\<lparr>sa_E1_index := sa_E1_index sa + 1\<rparr>,
            sh\<lparr>sh_update_node := (sh_update_node sh)(ev_node (sa_E1 sa) (sa_E1_index sa) := 1)\<rparr>)"
    using assms(4,5) by (simp add: E1_body_def Let_def)
  show ?thesis
    using assms(1-3) body by (subst SimInf_process_E1_events.simps) simp
qed

text \<open>The theorem at a thread whose queue holds one enter event of 4 individuals and whose
  matrix E has an empty column 0.\<close>

theorem E1_enter_empty_select_witness:
  "E1_body (rng_const (1 / 2)) enter_empty_args calloc_shared =
     (False, enter_empty_args\<lparr>sa_E1_index := 1\<rparr>,
      calloc_shared\<lparr>sh_update_node := (sh_update_node calloc_shared)(0 := 1)\<rparr>) \<and>
   sa_errcode (enter_empty_args\<lparr>sa_E1_index := 1\<rparr>) = None"
  using E1_enter_empty_select[of enter_empty_args "rng_const (1 / 2)" calloc_shared]
  by (simp add: enter_empty_args_def calloc_thread_args_def calloc_events_def array_of_def
      ENTER_EVENT_def)

text \<open>
  C10. An external transfer event that is applied without error leaves the sum of \<open>u\<close> over
  all nodes and compartments unchanged: when the two nodes differ, the individuals of
  \<open>dest\<close> grow by the number sampled and those of \<open>node\<close> shrink by it. The event is one
  of the data model: its nodes are nodes of the model and the shifted compartments are
  compartments (the code writes outside \<open>u\<close> otherwise).
\<close>

theorem E2_event_conserves_total:
  assumes wf: "E2_event_wf sa (sa_E2_index sa)"
    and body: "E2_body ops sa sh = (brk, sa', sh')"
    and noerr: "sa_errcode sa' = None"
  shows "grand_total (sa_Ntot sa) (sa_Nc sa) (sh_uu sh') =
           grand_total (sa_Ntot sa) (sa_Nc sa) (sh_uu sh) \<and>
         (ev_node (sa_E2 sa) (sa_E2_index sa) \<noteq> ev_dest (sa_E2 sa) (sa_E2_index sa) \<longrightarrow>
            node_total (sa_Nc sa) (sh_uu sh') (ev_dest (sa_E2 sa) (sa_E2_index sa)) =
              node_total (sa_Nc sa) (sh_uu sh) (ev_dest (sa_E2 sa) (sa_E2_index sa)) +
              sampled_total (sa_irE sa) (sa_jcE sa) (ev_select (sa_E2 sa) (sa_E2_index sa))
                (sa_individuals sa') \<and>
            node_total (sa_Nc sa) (sh_uu sh') (ev_node (sa_E2 sa) (sa_E2_index sa)) =
              node_total (sa_Nc sa) (sh_uu sh) (ev_node (sa_E2 sa) (sa_E2_index sa)) -
              sampled_total (sa_irE sa) (sa_jcE sa) (ev_select (sa_E2 sa) (sa_E2_index sa))
                (sa_individuals sa'))"
proof -
  define e2 where "e2 = sa_E2 sa"
  define j where "j = sa_E2_index sa"
  define Nc where "Nc = sa_Nc sa"
  define irE where "irE = sa_irE sa"
  define node where "node = ev_node e2 j"
  define dest where "dest = ev_dest e2 j"
  define shift where "shift = ev_shift e2 j"
  define lo where "lo = sa_jcE sa (ev_select e2 j)"
  define hi where "hi = sa_jcE sa (ev_select e2 j + 1)"
  define ll where "ll = (\<lambda>i. if shift < 0 then 0 else sa_N sa (shift * Nc + irE i))"
  obtain err ind ut g where samp:
    "SimInf_sample_select ops (sa_irE sa) (sa_jcE sa) (sa_Nc sa) (sh_uu sh)
       (ev_node e2 j) (ev_select e2 j) (ev_n e2 j) (ev_proportion e2 j)
       (sa_individuals sa) (sa_u_tmp sa) (sa_rng sa) = (err, ind, ut, g)"
    by (metis prod_cases4)
  obtain err2 uu' where loop:
    "E2_transfer_loop irE Nc (sa_N sa) ind node dest shift lo hi (sh_uu sh) = (err2, uu')"
    by (cases "E2_transfer_loop irE Nc (sa_N sa) ind node dest shift lo hi (sh_uu sh)")
  have err: "err = None"
  proof (rule ccontr)
    assume "err \<noteq> None"
    then have "sa_errcode sa' = err"
      using body samp by (auto simp: E2_body_def Let_def e2_def j_def)
    then show False using noerr \<open>err \<noteq> None\<close> by simp
  qed
  have res: "sa_errcode sa' = err2" "sh_uu sh' = uu'" "sa_individuals sa' = ind"
    using body samp loop err
    by (auto simp: E2_body_def Let_def e2_def j_def irE_def Nc_def node_def dest_def shift_def
        lo_def hi_def)
  have loop': "E2_transfer_loop irE Nc (sa_N sa) ind node dest shift lo hi (sh_uu sh) = (None, uu')"
    using loop res(1) noerr by simp
  have S: "select_column (sa_jcE sa) (ev_select e2 j) = {lo..<hi}"
    by (simp add: select_column_def lo_def hi_def)
  have nd: "0 \<le> node" "node < sa_Ntot sa" "0 \<le> dest" "dest < sa_Ntot sa"
    using wf by (simp_all add: E2_event_wf_def Let_def node_def dest_def e2_def j_def)
  have col: "\<And>i. i \<in> {lo..<hi} \<Longrightarrow>
      0 \<le> irE i \<and> irE i < Nc \<and> 0 \<le> irE i + ll i \<and> irE i + ll i < Nc"
  proof -
    fix i assume i: "i \<in> {lo..<hi}"
    have "0 \<le> irE i \<and> irE i < Nc \<and>
         (0 \<le> shift \<longrightarrow> 0 \<le> irE i + sa_N sa (shift * Nc + irE i) \<and>
            irE i + sa_N sa (shift * Nc + irE i) < Nc)"
      using wf i unfolding E2_event_wf_def Let_def S[unfolded e2_def j_def]
      by (simp add: irE_def Nc_def shift_def e2_def j_def)
    then show "0 \<le> irE i \<and> irE i < Nc \<and> 0 \<le> irE i + ll i \<and> irE i + ll i < Nc"
      by (auto simp: ll_def)
  qed
  have sums: "\<And>A. finite A \<Longrightarrow> (\<Sum>k\<in>A. uu' k) =
     (\<Sum>k\<in>A. sh_uu sh k) +
     (\<Sum>i = lo..<hi. if dest * Nc + (irE i + ll i) \<in> A then ind (irE i) else 0) -
     (\<Sum>i = lo..<hi. if node * Nc + irE i \<in> A then ind (irE i) else 0)"
    using E2_transfer_loop_sum[OF _ loop'] by (simp add: ll_def add.assoc)
  have samp_tot: "sampled_total (sa_irE sa) (sa_jcE sa) (ev_select e2 j) ind =
      (\<Sum>i = lo..<hi. ind (irE i))"
    by (simp add: sampled_total_def S irE_def)
  have g: "(\<Sum>k = 0..<sa_Ntot sa * Nc. uu' k) = (\<Sum>k = 0..<sa_Ntot sa * Nc. sh_uu sh k)"
  proof -
    have a: "(\<Sum>i = lo..<hi. if dest * Nc + (irE i + ll i) \<in> {0..<sa_Ntot sa * Nc}
                then ind (irE i) else 0) = (\<Sum>i = lo..<hi. ind (irE i))"
      by (rule sum.cong) (use cell_in_range[OF nd(3,4)] col in auto)
    have b: "(\<Sum>i = lo..<hi. if node * Nc + irE i \<in> {0..<sa_Ntot sa * Nc}
                then ind (irE i) else 0) = (\<Sum>i = lo..<hi. ind (irE i))"
      by (rule sum.cong) (use cell_in_range[OF nd(1,2)] col in auto)
    show ?thesis using sums[of "{0..<sa_Ntot sa * Nc}"] a b by simp
  qed
  have d: "(\<Sum>k = dest * Nc..<(dest + 1) * Nc. uu' k) =
        (\<Sum>k = dest * Nc..<(dest + 1) * Nc. sh_uu sh k) + (\<Sum>i = lo..<hi. ind (irE i))"
    if ne: "node \<noteq> dest"
  proof -
    have a: "(\<Sum>i = lo..<hi. if dest * Nc + (irE i + ll i) \<in> {dest * Nc..<(dest + 1) * Nc}
                then ind (irE i) else 0) = (\<Sum>i = lo..<hi. ind (irE i))"
      by (rule sum.cong) (use col cell_in_node[of _ Nc dest dest] in auto)
    have b: "(\<Sum>i = lo..<hi. if node * Nc + irE i \<in> {dest * Nc..<(dest + 1) * Nc}
                then ind (irE i) else 0) = (\<Sum>i = lo..<hi. 0)"
      by (rule sum.cong) (use col cell_in_node[of _ Nc node dest] ne in auto)
    show ?thesis using sums[of "{dest * Nc..<(dest + 1) * Nc}"] a b by simp
  qed
  have n: "(\<Sum>k = node * Nc..<(node + 1) * Nc. uu' k) =
        (\<Sum>k = node * Nc..<(node + 1) * Nc. sh_uu sh k) - (\<Sum>i = lo..<hi. ind (irE i))"
    if ne: "node \<noteq> dest"
  proof -
    have a: "(\<Sum>i = lo..<hi. if dest * Nc + (irE i + ll i) \<in> {node * Nc..<(node + 1) * Nc}
                then ind (irE i) else 0) = (\<Sum>i = lo..<hi. 0)"
      by (rule sum.cong) (use col cell_in_node[of _ Nc dest node] ne in auto)
    have b: "(\<Sum>i = lo..<hi. if node * Nc + irE i \<in> {node * Nc..<(node + 1) * Nc}
                then ind (irE i) else 0) = (\<Sum>i = lo..<hi. ind (irE i))"
      by (rule sum.cong) (use col cell_in_node[of _ Nc node node] in auto)
    show ?thesis using sums[of "{node * Nc..<(node + 1) * Nc}"] a b by simp
  qed
  show ?thesis
    using g d n
    unfolding grand_total_def node_total_def res samp_tot
      e2_def[symmetric] j_def[symmetric] Nc_def[symmetric] node_def[symmetric] dest_def[symmetric]
    by simp
qed

text \<open>The theorem at the transfer of 3 of the 5 individuals of node 0 to node 1.\<close>

lemma transfer_args_body:
  "E2_body (rng_const (1 / 2)) transfer_args transfer_shared =
     (False,
      transfer_args\<lparr>sa_errcode := None, sa_individuals := (\<lambda>i. 0)(0 := 3), sa_E2_index := 1\<rparr>,
      transfer_shared\<lparr>sh_uu := (array_of [5, 0])(1 := 3, 0 := 2),
         sh_update_node := (\<lambda>i. 0)(0 := 1, 1 := 1)\<rparr>)"
proof -
  have col: "select_column (array_of [0, 1]) 0 = {0}"
    by (auto simp: select_column_def array_of_def)
  have tot: "select_total (array_of [0]) (array_of [0, 1]) 1 (array_of [5, 0]) 0 0 = 5"
    unfolding select_total_def col by (simp add: array_of_def)
  have samp: "SimInf_sample_select (rng_const (1 / 2)) (array_of [0]) (array_of [0, 1]) 1
      (array_of [5, 0]) 0 0 3 0 (\<lambda>i. 0) (\<lambda>i. 0) () = (None, (\<lambda>i. 0)(0 := 3), (\<lambda>i. 0), ())"
    by (simp add: sample_select_unfold n_actual_def tot Let_def)
       (auto simp: array_of_def memset0_def)
  have loop: "E2_transfer_loop (array_of [0]) 1 (\<lambda>i. 0) ((\<lambda>i. 0)(0 := 3)) 0 1 (- 1) 0 1
      (array_of [5, 0]) = (None, (array_of [5, 0])(1 := 3, 0 := 2))"
    by (simp add: E2_transfer_loop.simps Let_def) (simp add: array_of_def)
  have a: "array_of [0, 1] 0 = 0" "array_of [0, 1] 1 = 1" "array_of [1] 0 = 1"
    "array_of [3] 0 = 3" "array_of [- 1] 0 = - 1"
    by (simp_all add: array_of_def)
  show ?thesis
    by (simp add: E2_body_def transfer_args_def transfer_shared_def calloc_thread_args_def
        calloc_events_def calloc_shared_def Let_def samp loop a)
qed

theorem E2_event_conserves_total_witness:
  "E2_event_wf transfer_args (sa_E2_index transfer_args) \<and>
   sa_errcode (fst (snd (E2_body (rng_const (1 / 2)) transfer_args transfer_shared))) = None \<and>
   grand_total 2 1 (sh_uu (snd (snd (E2_body (rng_const (1 / 2)) transfer_args transfer_shared)))) =
     grand_total 2 1 (array_of [5, 0]) \<and>
   node_total 1 (sh_uu (snd (snd (E2_body (rng_const (1 / 2)) transfer_args transfer_shared)))) 1 =
     node_total 1 (array_of [5, 0]) 1 + 3"
proof -
  let ?sa' = "transfer_args\<lparr>sa_errcode := None, sa_individuals := (\<lambda>i. 0)(0 := 3), sa_E2_index := 1\<rparr>"
  let ?sh' = "transfer_shared\<lparr>sh_uu := (array_of [5, 0])(1 := 3, 0 := 2),
         sh_update_node := (\<lambda>i. 0)(0 := 1, 1 := 1)\<rparr>"
  have col: "select_column (array_of [0, 1]) 0 = {0}"
    by (auto simp: select_column_def array_of_def)
  have wf: "E2_event_wf transfer_args (sa_E2_index transfer_args)"
    by (simp add: E2_event_wf_def transfer_args_def calloc_thread_args_def calloc_events_def
        Let_def col) (simp add: array_of_def)
  have noerr: "sa_errcode ?sa' = None" by simp
  have st: "sampled_total (array_of [0]) (array_of [0, 1]) 0 ((\<lambda>i. 0)(0 := 3)) = 3"
    unfolding sampled_total_def col by (simp add: array_of_def)
  have v: "sa_Ntot transfer_args = 2" "sa_Nc transfer_args = 1"
    "sa_irE transfer_args = array_of [0]" "sa_jcE transfer_args = array_of [0, 1]"
    "ev_node (sa_E2 transfer_args) (sa_E2_index transfer_args) = 0"
    "ev_dest (sa_E2 transfer_args) (sa_E2_index transfer_args) = 1"
    "ev_select (sa_E2 transfer_args) (sa_E2_index transfer_args) = 0"
    "sh_uu transfer_shared = array_of [5, 0]"
    by (simp_all add: transfer_args_def transfer_shared_def calloc_thread_args_def
        calloc_events_def calloc_shared_def array_of_def)
  show ?thesis
    using E2_event_conserves_total[OF wf transfer_args_body noerr] wf
    by (simp add: transfer_args_body v st)
qed

section \<open>Properties of the SSA stepper\<close>

lemma tr_backward_props:
  "tr_backward t_rate node Nt tr \<le> tr \<and>
   (\<forall>k. tr_backward t_rate node Nt tr < k \<and> k \<le> tr \<longrightarrow> t_rate (node * Nt + k) = 0) \<and>
   (t_rate (node * Nt + tr_backward t_rate node Nt tr) = 0 \<longrightarrow> tr_backward t_rate node Nt tr \<le> 0) \<and>
   (0 \<le> tr \<longrightarrow> 0 \<le> tr_backward t_rate node Nt tr)"
proof (induction t_rate node Nt tr rule: tr_backward.induct)
  case (1 t_rate node Nt tr)
  show ?case
  proof (cases "tr > 0 \<and> t_rate (node * Nt + tr) = 0")
    case True
    then have unf: "tr_backward t_rate node Nt tr = tr_backward t_rate node Nt (tr - 1)"
      by (subst tr_backward.simps) simp
    have IH: "tr_backward t_rate node Nt (tr - 1) \<le> tr - 1 \<and>
      (\<forall>k. tr_backward t_rate node Nt (tr - 1) < k \<and> k \<le> tr - 1 \<longrightarrow> t_rate (node * Nt + k) = 0) \<and>
      (t_rate (node * Nt + tr_backward t_rate node Nt (tr - 1)) = 0 \<longrightarrow>
         tr_backward t_rate node Nt (tr - 1) \<le> 0) \<and>
      (0 \<le> tr - 1 \<longrightarrow> 0 \<le> tr_backward t_rate node Nt (tr - 1))"
      using "1.IH" True by simp
    have "\<And>k. tr_backward t_rate node Nt (tr - 1) < k \<Longrightarrow> k \<le> tr \<Longrightarrow> t_rate (node * Nt + k) = 0"
    proof -
      fix k assume k: "tr_backward t_rate node Nt (tr - 1) < k" "k \<le> tr"
      show "t_rate (node * Nt + k) = 0"
      proof (cases "k = tr")
        case True
        then show ?thesis using \<open>tr > 0 \<and> t_rate (node * Nt + tr) = 0\<close> by simp
      next
        case False
        then have "k \<le> tr - 1" using k by simp
        then show ?thesis using IH k by blast
      qed
    qed
    then show ?thesis unfolding unf using IH True by auto
  next
    case False
    then have unf: "tr_backward t_rate node Nt tr = tr"
      by (subst tr_backward.simps) auto
    show ?thesis unfolding unf using False by auto
  qed
qed

lemma floating_point_fix_Some:
  assumes "floating_point_fix t_rate node Nt tr = Some tr'"
  shows "tr' \<le> (if Nt \<le> tr then Nt - 1 else tr) \<and> t_rate (node * Nt + tr') \<noteq> 0 \<and>
         (\<forall>k. tr' < k \<and> k \<le> (if Nt \<le> tr then Nt - 1 else tr) \<longrightarrow> t_rate (node * Nt + k) = 0)"
proof -
  define c where "c = (if Nt \<le> tr then Nt - 1 else tr)"
  have fx: "floating_point_fix t_rate node Nt tr =
      (if t_rate (node * Nt + c) = 0 then
         (if t_rate (node * Nt + tr_backward t_rate node Nt c) = 0 then None
          else Some (tr_backward t_rate node Nt c))
       else Some c)"
    by (simp add: floating_point_fix_def Let_def c_def)
  show ?thesis
  proof (cases "t_rate (node * Nt + c) = 0")
    case False
    then have "tr' = c" using assms fx by simp
    then show ?thesis using False by (simp add: c_def)
  next
    case True
    then have t: "tr' = tr_backward t_rate node Nt c" "t_rate (node * Nt + tr') \<noteq> 0"
      using assms fx by (auto split: if_splits)
    show ?thesis
      using tr_backward_props[of t_rate node Nt c] t unfolding c_def[symmetric] by simp
  qed
qed

lemma floating_point_fix_None:
  assumes "floating_point_fix t_rate node Nt tr = None"
  shows "\<forall>k. 0 \<le> k \<and> k \<le> (if Nt \<le> tr then Nt - 1 else tr) \<longrightarrow> t_rate (node * Nt + k) = 0"
proof -
  define c where "c = (if Nt \<le> tr then Nt - 1 else tr)"
  define b where "b = tr_backward t_rate node Nt c"
  have fx: "floating_point_fix t_rate node Nt tr =
      (if t_rate (node * Nt + c) = 0 then
         (if t_rate (node * Nt + b) = 0 then None else Some b)
       else Some c)"
    by (simp add: floating_point_fix_def Let_def c_def b_def)
  have z: "t_rate (node * Nt + c) = 0" "t_rate (node * Nt + b) = 0"
    using assms fx by (auto split: if_splits)
  have p: "b \<le> c" "\<forall>k. b < k \<and> k \<le> c \<longrightarrow> t_rate (node * Nt + k) = 0" "b \<le> 0"
    "0 \<le> c \<longrightarrow> 0 \<le> b"
    using tr_backward_props[of t_rate node Nt c] z unfolding b_def by simp_all
  have "\<And>k. 0 \<le> k \<Longrightarrow> k \<le> c \<Longrightarrow> t_rate (node * Nt + k) = 0"
  proof -
    fix k :: int assume k: "0 \<le> k" "k \<le> c"
    then have "b = 0" using p by linarith
    show "t_rate (node * Nt + k) = 0"
    proof (cases "k = 0")
      case True
      then show ?thesis using z \<open>b = 0\<close> by simp
    next
      case False
      then show ?thesis using p(2) k \<open>b = 0\<close> by simp
    qed
  qed
  then show ?thesis unfolding c_def by blast
qed

lemma ln_half_bound: "- ln (1 / 2 :: real) < 1"
proof -
  have "ln (1 / 2 :: real) = - ln 2" by (simp add: ln_div)
  then show ?thesis using ln_2_less_1 by simp
qed

lemma tr_search_bounds:
  "tr \<le> tr_search t_rate node Nt rand tr cum \<and>
   (tr \<le> Nt \<longrightarrow> tr_search t_rate node Nt rand tr cum \<le> Nt)"
proof (induction t_rate node Nt rand tr cum rule: tr_search.induct)
  case (1 t_rate node Nt rand tr cum)
  show ?case
  proof (cases "tr < Nt \<and> rand > cum")
    case True
    then have unf: "tr_search t_rate node Nt rand tr cum =
        tr_search t_rate node Nt rand (tr + 1) (cum + t_rate (node * Nt + (tr + 1)))"
      by (subst tr_search.simps) simp
    show ?thesis unfolding unf using "1.IH"[OF True] True by auto
  next
    case False
    then have "tr_search t_rate node Nt rand tr cum = tr" by (subst tr_search.simps) auto
    then show ?thesis by simp
  qed
qed

lemma floating_point_fix_iff:
  assumes c: "c = (if Nt \<le> tr then Nt - 1 else tr)" and c0: "0 \<le> c"
  shows "floating_point_fix t_rate node Nt tr = Some k \<longleftrightarrow>
           0 \<le> k \<and> k \<le> c \<and> t_rate (node * Nt + k) \<noteq> 0 \<and>
           (\<forall>j. k < j \<and> j \<le> c \<longrightarrow> t_rate (node * Nt + j) = 0)"
    and "floating_point_fix t_rate node Nt tr = None \<longleftrightarrow>
           (\<forall>j. 0 \<le> j \<and> j \<le> c \<longrightarrow> t_rate (node * Nt + j) = 0)"
proof -
  define b where "b = tr_backward t_rate node Nt c"
  have fx: "floating_point_fix t_rate node Nt tr =
      (if t_rate (node * Nt + c) = 0 then
         (if t_rate (node * Nt + b) = 0 then None else Some b)
       else Some c)"
    by (simp add: floating_point_fix_def Let_def c b_def)
  have p: "b \<le> c" "\<forall>j. b < j \<and> j \<le> c \<longrightarrow> t_rate (node * Nt + j) = 0"
    "t_rate (node * Nt + b) = 0 \<longrightarrow> b \<le> 0" "0 \<le> b"
    using tr_backward_props[of t_rate node Nt c] c0 unfolding b_def by simp_all
  have none: "floating_point_fix t_rate node Nt tr = None \<longleftrightarrow>
           (\<forall>j. 0 \<le> j \<and> j \<le> c \<longrightarrow> t_rate (node * Nt + j) = 0)"
  proof
    assume "floating_point_fix t_rate node Nt tr = None"
    then show "\<forall>j. 0 \<le> j \<and> j \<le> c \<longrightarrow> t_rate (node * Nt + j) = 0"
      using floating_point_fix_None[of t_rate node Nt tr] unfolding c by simp
  next
    assume z: "\<forall>j. 0 \<le> j \<and> j \<le> c \<longrightarrow> t_rate (node * Nt + j) = 0"
    then have "t_rate (node * Nt + c) = 0" "t_rate (node * Nt + b) = 0" using c0 p by auto
    then show "floating_point_fix t_rate node Nt tr = None" unfolding fx by simp
  qed
  have some: "floating_point_fix t_rate node Nt tr = Some k \<longleftrightarrow>
           0 \<le> k \<and> k \<le> c \<and> t_rate (node * Nt + k) \<noteq> 0 \<and>
           (\<forall>j. k < j \<and> j \<le> c \<longrightarrow> t_rate (node * Nt + j) = 0)"
  proof
    assume s: "floating_point_fix t_rate node Nt tr = Some k"
    have k: "k = b \<or> k = c" using s unfolding fx by (auto split: if_splits)
    have "0 \<le> k" using k p c0 by auto
    then show "0 \<le> k \<and> k \<le> c \<and> t_rate (node * Nt + k) \<noteq> 0 \<and>
           (\<forall>j. k < j \<and> j \<le> c \<longrightarrow> t_rate (node * Nt + j) = 0)"
      using floating_point_fix_Some[OF s] unfolding c by simp
  next
    assume r: "0 \<le> k \<and> k \<le> c \<and> t_rate (node * Nt + k) \<noteq> 0 \<and>
           (\<forall>j. k < j \<and> j \<le> c \<longrightarrow> t_rate (node * Nt + j) = 0)"
    then have "floating_point_fix t_rate node Nt tr \<noteq> None" using none by blast
    then obtain k' where s: "floating_point_fix t_rate node Nt tr = Some k'" by auto
    have q: "k' \<le> c" "t_rate (node * Nt + k') \<noteq> 0"
      "\<forall>j. k' < j \<and> j \<le> c \<longrightarrow> t_rate (node * Nt + j) = 0"
      using floating_point_fix_Some[OF s] unfolding c by simp_all
    have "k' = k"
    proof (rule ccontr)
      assume "k' \<noteq> k"
      then consider "k' < k" | "k < k'" by linarith
      then show False
      proof cases
        case 1
        then show ?thesis using q(3) r by blast
      next
        case 2
        then show ?thesis using q(1,2) r by blast
      qed
    qed
    then show "floating_point_fix t_rate node Nt tr = Some k" using s by simp
  qed
  show "floating_point_fix t_rate node Nt tr = Some k \<longleftrightarrow>
           0 \<le> k \<and> k \<le> c \<and> t_rate (node * Nt + k) \<noteq> 0 \<and>
           (\<forall>j. k < j \<and> j \<le> c \<longrightarrow> t_rate (node * Nt + j) = 0)"
    by (rule some)
  show "floating_point_fix t_rate node Nt tr = None \<longleftrightarrow>
           (\<forall>j. 0 \<le> j \<and> j \<le> c \<longrightarrow> t_rate (node * Nt + j) = 0)"
    by (rule none)
qed

text \<open>
  C4. The round of the loop of a node, in all its cases. \<open>tau\<close> is the time to the next
  event of the node, \<open>tr\<close> the transition at which the search of the cumulated rates ends
  and \<open>c\<close> the transition after the clamp: \<open>c = Nt - 1\<close> when the search has run past the
  last transition, \<open>c = tr\<close> otherwise, so that \<open>0 \<le> c \<le> Nt - 1\<close>. When the node has no
  rate, or its next event is not before \<open>next_day\<close>, the round sets the clock of the node
  and stops. Otherwise, when a transition of \<open>0 .. c\<close> has a cached rate that is not 0,
  the round fires the nearest of them below \<open>c\<close> (\<open>c\<close> itself when its rate is not 0): it
  applies the stoichiometry of this transition, whose cached rate is not 0, and goes on.
  When there is none, the round sets \<open>sum_t_rate[node]\<close> to 0 and stops with the state
  \<open>u\<close> as it was: the nil event. The model has at least one transition.
\<close>

theorem ssa_transition_selection:
  fixes sa :: "'g SimInf_thread_args"
  assumes Nt: "1 \<le> sa_Nt sa"
    and d1: "gsl_rng_uniform_pos ops (sa_rng sa) = (r1, g1)"
    and d2: "gsl_rng_uniform_pos ops g1 = (r2, g2)"
    and tau: "tau = - ln r1 / sa_sum_t_rate sa node"
    and tr: "tr = tr_search (sa_t_rate sa) node (sa_Nt sa) (r2 * sa_sum_t_rate sa node) 0
                    (sa_t_rate sa (node * sa_Nt sa))"
    and c: "c = (if sa_Nt sa \<le> tr then sa_Nt sa - 1 else tr)"
    and sa1: "sa1 = sa\<lparr>sa_rng := g2,
                       sa_t_time := (sa_t_time sa)(node := sa_t_time sa node + tau)\<rparr>"
  shows "0 \<le> tr \<and> 0 \<le> c \<and> c \<le> sa_Nt sa - 1 \<and> (tr \<le> sa_Nt sa - 1 \<longrightarrow> c = tr) \<and>
     (if sa_sum_t_rate sa node \<le> 0 then
        ssa_step ops node sa sh =
          (True, sa\<lparr>sa_t_time := (sa_t_time sa)(node := sa_next_day sa)\<rparr>, sh)
      else if sa_next_day sa \<le> tau + sa_t_time sa node then
        ssa_step ops node sa sh =
          (True, sa\<lparr>sa_rng := g1, sa_t_time := (sa_t_time sa)(node := sa_next_day sa)\<rparr>, sh)
      else if \<exists>k. 0 \<le> k \<and> k \<le> c \<and> sa_t_rate sa (node * sa_Nt sa + k) \<noteq> 0 then
        \<exists>k. 0 \<le> k \<and> k \<le> c \<and> sa_t_rate sa (node * sa_Nt sa + k) \<noteq> 0 \<and>
            (\<forall>j. k < j \<and> j \<le> c \<longrightarrow> sa_t_rate sa (node * sa_Nt sa + j) = 0) \<and>
            ssa_select ops node sa = (sa1, Some k) \<and>
            ssa_step ops node sa sh = (False, ssa_fire node k sa1 sh)
      else
        ssa_select ops node sa =
          (sa1\<lparr>sa_sum_t_rate := (sa_sum_t_rate sa)(node := 0)\<rparr>, None) \<and>
        ssa_step ops node sa sh =
          (True, sa1\<lparr>sa_sum_t_rate := (sa_sum_t_rate sa)(node := 0)\<rparr>, sh))"
proof -
  have tr0: "0 \<le> tr" "tr \<le> sa_Nt sa"
    using tr_search_bounds[of 0 "sa_t_rate sa" node "sa_Nt sa" "r2 * sa_sum_t_rate sa node"
        "sa_t_rate sa (node * sa_Nt sa)"] Nt unfolding tr by simp_all
  have c0: "0 \<le> c" "c \<le> sa_Nt sa - 1" "tr \<le> sa_Nt sa - 1 \<longrightarrow> c = tr"
    using tr0 Nt unfolding c by auto
  note F = floating_point_fix_iff[OF c c0(1), of "sa_t_rate sa" node]
  consider (norate) "sa_sum_t_rate sa node \<le> 0"
    | (day) "\<not> sa_sum_t_rate sa node \<le> 0" "sa_next_day sa \<le> tau + sa_t_time sa node"
    | (sel) "\<not> sa_sum_t_rate sa node \<le> 0" "\<not> sa_next_day sa \<le> tau + sa_t_time sa node"
    by blast
  then have main: "if sa_sum_t_rate sa node \<le> 0 then
        ssa_step ops node sa sh =
          (True, sa\<lparr>sa_t_time := (sa_t_time sa)(node := sa_next_day sa)\<rparr>, sh)
      else if sa_next_day sa \<le> tau + sa_t_time sa node then
        ssa_step ops node sa sh =
          (True, sa\<lparr>sa_rng := g1, sa_t_time := (sa_t_time sa)(node := sa_next_day sa)\<rparr>, sh)
      else if \<exists>k. 0 \<le> k \<and> k \<le> c \<and> sa_t_rate sa (node * sa_Nt sa + k) \<noteq> 0 then
        \<exists>k. 0 \<le> k \<and> k \<le> c \<and> sa_t_rate sa (node * sa_Nt sa + k) \<noteq> 0 \<and>
            (\<forall>j. k < j \<and> j \<le> c \<longrightarrow> sa_t_rate sa (node * sa_Nt sa + j) = 0) \<and>
            ssa_select ops node sa = (sa1, Some k) \<and>
            ssa_step ops node sa sh = (False, ssa_fire node k sa1 sh)
      else
        ssa_select ops node sa =
          (sa1\<lparr>sa_sum_t_rate := (sa_sum_t_rate sa)(node := 0)\<rparr>, None) \<and>
        ssa_step ops node sa sh =
          (True, sa1\<lparr>sa_sum_t_rate := (sa_sum_t_rate sa)(node := 0)\<rparr>, sh)"
  proof cases
    case norate
    then have "ssa_step ops node sa sh =
          (True, sa\<lparr>sa_t_time := (sa_t_time sa)(node := sa_next_day sa)\<rparr>, sh)"
      by (simp add: ssa_step_def ssa_select_def)
    then show ?thesis using norate by simp
  next
    case day
    then have "ssa_step ops node sa sh =
          (True, sa\<lparr>sa_rng := g1, sa_t_time := (sa_t_time sa)(node := sa_next_day sa)\<rparr>, sh)"
      using d1 unfolding tau by (simp add: ssa_step_def ssa_select_def Let_def)
    then show ?thesis using day by simp
  next
    case sel
    have sl: "ssa_select ops node sa =
      (case floating_point_fix (sa_t_rate sa) node (sa_Nt sa) tr of
         None \<Rightarrow> (sa1\<lparr>sa_sum_t_rate := (sa_sum_t_rate sa)(node := 0)\<rparr>, None)
       | Some k \<Rightarrow> (sa1, Some k))"
      using sel d1 d2 unfolding ssa_select_def tr sa1 tau
      by (simp add: Let_def split: option.splits)
    show ?thesis
    proof (cases "\<exists>k. 0 \<le> k \<and> k \<le> c \<and> sa_t_rate sa (node * sa_Nt sa + k) \<noteq> 0")
      case True
      then have "floating_point_fix (sa_t_rate sa) node (sa_Nt sa) tr \<noteq> None"
        using F(2) by blast
      then obtain k where k: "floating_point_fix (sa_t_rate sa) node (sa_Nt sa) tr = Some k"
        by auto
      have s: "ssa_select ops node sa = (sa1, Some k)" unfolding sl k by simp
      have st: "ssa_step ops node sa sh = (False, ssa_fire node k sa1 sh)"
        unfolding ssa_step_def s by simp
      have "0 \<le> k \<and> k \<le> c \<and> sa_t_rate sa (node * sa_Nt sa + k) \<noteq> 0 \<and>
               (\<forall>j. k < j \<and> j \<le> c \<longrightarrow> sa_t_rate sa (node * sa_Nt sa + j) = 0)"
        using F(1)[of k] k by blast
      then show ?thesis using True s st sel by auto
    next
      case False
      then have n: "floating_point_fix (sa_t_rate sa) node (sa_Nt sa) tr = None"
        using F(2) by blast
      have s: "ssa_select ops node sa =
               (sa1\<lparr>sa_sum_t_rate := (sa_sum_t_rate sa)(node := 0)\<rparr>, None)"
        unfolding sl n by simp
      have st: "ssa_step ops node sa sh =
               (True, sa1\<lparr>sa_sum_t_rate := (sa_sum_t_rate sa)(node := 0)\<rparr>, sh)"
        unfolding ssa_step_def s by simp
      show ?thesis using False s st sel by auto
    qed
  qed
  show ?thesis using tr0 c0 main by blast
qed

text \<open>The theorem at the rates 1/2, 0, 0 with the cached sum 2, where the search ends at 3,
  past the last transition: the clamp gives 2, the walk gives 0 and transition 0 fires.
  And at a node whose two cached rates are 0 while their cached sum is 1: the nil event.\<close>

theorem ssa_transition_selection_witness:
  "tr_search (sa_t_rate clamp_args) 0 (sa_Nt clamp_args) (1 / 2 * sa_sum_t_rate clamp_args 0) 0
     (sa_t_rate clamp_args (0 * sa_Nt clamp_args)) = 3 \<and>
   ssa_step (rng_const (1 / 2)) 0 clamp_args calloc_shared =
     (False, ssa_fire 0 0
        (clamp_args\<lparr>sa_rng := (),
           sa_t_time := (sa_t_time clamp_args)
             (0 := sa_t_time clamp_args 0 + - ln (1 / 2) / sa_sum_t_rate clamp_args 0)\<rparr>)
        calloc_shared) \<and>
   ssa_step (rng_const (1 / 2)) 0 nil_event_args calloc_shared =
     (True, nil_event_args\<lparr>sa_rng := (),
        sa_t_time := (sa_t_time nil_event_args)
          (0 := sa_t_time nil_event_args 0 + - ln (1 / 2) / sa_sum_t_rate nil_event_args 0),
        sa_sum_t_rate := (sa_sum_t_rate nil_event_args)(0 := 0)\<rparr>, calloc_shared)"
proof -
  have u: "gsl_rng_uniform_pos (rng_const (1 / 2)) () = (1 / 2, ())"
    by (simp add: rng_const_def)
  have v: "sa_Nt clamp_args = 3" "sa_sum_t_rate clamp_args 0 = 2" "sa_t_time clamp_args 0 = 0"
    "sa_next_day clamp_args = 1" "sa_rng clamp_args = ()"
    "sa_t_rate clamp_args = rarray_of [1 / 2, 0, 0]"
    by (simp_all add: clamp_args_def calloc_thread_args_def rarray_of_def)
  have w: "sa_Nt nil_event_args = 2" "sa_sum_t_rate nil_event_args 0 = 1"
    "sa_t_time nil_event_args 0 = 0" "sa_next_day nil_event_args = 1" "sa_rng nil_event_args = ()"
    "sa_t_rate nil_event_args = (\<lambda>i. 0)"
    by (simp_all add: nil_event_args_def calloc_thread_args_def rarray_of_def)
  have l: "- ln (1 / 2 :: real) / 2 < 1" "- ln (1 / 2 :: real) < 1"
    using ln_half_bound by simp_all
  have N1: "1 \<le> sa_Nt clamp_args" by (simp add: v)
  have d1: "gsl_rng_uniform_pos (rng_const (1 / 2)) (sa_rng clamp_args) = (1 / 2, ())"
    by (simp add: u)
  have trv: "tr_search (sa_t_rate clamp_args) 0 (sa_Nt clamp_args)
      (1 / 2 * sa_sum_t_rate clamp_args 0) 0 (sa_t_rate clamp_args (0 * sa_Nt clamp_args)) = 3"
    by (simp add: v tr_search.simps rarray_of_def)
  have n1: "\<not> sa_sum_t_rate clamp_args 0 \<le> 0" by (simp add: v)
  have n2: "\<not> sa_next_day clamp_args \<le>
      - ln (1 / 2) / sa_sum_t_rate clamp_args 0 + sa_t_time clamp_args 0"
    using l by (simp add: v)
  have cv: "(if sa_Nt clamp_args \<le> 3 then sa_Nt clamp_args - 1 else 3) = 2" by (simp add: v)
  have ex: "\<exists>k. 0 \<le> k \<and> k \<le> 2 \<and> sa_t_rate clamp_args (0 * sa_Nt clamp_args + k) \<noteq> 0"
    by (rule exI[of _ 0]) (simp add: v rarray_of_def)
  note t1 = ssa_transition_selection[OF N1 d1 u refl refl refl refl,
      where node = 0 and sh = calloc_shared, unfolded trv cv]
  have "\<exists>k. 0 \<le> k \<and> k \<le> 2 \<and> sa_t_rate clamp_args (0 * sa_Nt clamp_args + k) \<noteq> 0 \<and>
            ssa_step (rng_const (1 / 2)) 0 clamp_args calloc_shared =
              (False, ssa_fire 0 k
                 (clamp_args\<lparr>sa_rng := (),
                    sa_t_time := (sa_t_time clamp_args)
                      (0 := sa_t_time clamp_args 0 + - ln (1 / 2) / sa_sum_t_rate clamp_args 0)\<rparr>)
                 calloc_shared)"
    using t1 n1 n2 ex by (simp only: if_False if_True) blast
  then obtain k where k: "0 \<le> k" "k \<le> 2" "sa_t_rate clamp_args (0 * sa_Nt clamp_args + k) \<noteq> 0"
    and st: "ssa_step (rng_const (1 / 2)) 0 clamp_args calloc_shared =
              (False, ssa_fire 0 k
                 (clamp_args\<lparr>sa_rng := (),
                    sa_t_time := (sa_t_time clamp_args)
                      (0 := sa_t_time clamp_args 0 + - ln (1 / 2) / sa_sum_t_rate clamp_args 0)\<rparr>)
                 calloc_shared)"
    by blast
  have "k = 0 \<or> k = 1 \<or> k = 2" using k(1,2) by linarith
  then have k0: "k = 0" using k(3) by (auto simp: v rarray_of_def)
  have N2: "1 \<le> sa_Nt nil_event_args" by (simp add: w)
  have d2: "gsl_rng_uniform_pos (rng_const (1 / 2)) (sa_rng nil_event_args) = (1 / 2, ())"
    by (simp add: u)
  have m1: "\<not> sa_sum_t_rate nil_event_args 0 \<le> 0" by (simp add: w)
  have m2: "\<not> sa_next_day nil_event_args \<le>
      - ln (1 / 2) / sa_sum_t_rate nil_event_args 0 + sa_t_time nil_event_args 0"
    using l by (simp add: w)
  have nx: "\<not> (\<exists>k. 0 \<le> k \<and> k \<le> c \<and> sa_t_rate nil_event_args (0 * sa_Nt nil_event_args + k) \<noteq> 0)"
    for c :: int
    by (simp add: w)
  note t2 = ssa_transition_selection[OF N2 d2 u refl refl refl refl,
      where node = 0 and sh = calloc_shared]
  have c2: "ssa_step (rng_const (1 / 2)) 0 nil_event_args calloc_shared =
     (True, nil_event_args\<lparr>sa_rng := (),
        sa_t_time := (sa_t_time nil_event_args)
          (0 := sa_t_time nil_event_args 0 + - ln (1 / 2) / sa_sum_t_rate nil_event_args 0),
        sa_sum_t_rate := (sa_sum_t_rate nil_event_args)(0 := 0)\<rparr>, calloc_shared)"
    using t2 m1 m2 nx by (simp only: if_False if_True)
  show ?thesis using trv st c2 unfolding k0 by blast
qed

section \<open>The partition of the nodes\<close>
























section \<open>The phases of a round of the main loop\<close>

subsection \<open>The Markov chain\<close>









subsection \<open>The scheduled events\<close>












subsection \<open>What the Markov chain leaves unchanged\<close>





subsection \<open>The post-step and the output\<close>










subsection \<open>The threads, one after the other\<close>

lemma first_error_None_iff:
  "first_error sas = None \<longleftrightarrow> (\<forall>sa \<in> set sas. sa_errcode sa = None)"
  by (induction sas) auto







subsection \<open>A round of the main loop, and the run\<close>







section \<open>The loops on concrete inputs\<close>

















lemma store_U_sparse_step:
  "\<not> sa_U sa \<and> sa_U_it sa < sa_tlen sa \<and> sa_tt sa > sa_tspan sa (sa_U_it sa) \<Longrightarrow>
   store_U_sparse sa sh =
        store_U_sparse (sa\<lparr>sa_U_it := sa_U_it sa + 1\<rparr>)
          (for_loop (sa_jcU sa (sa_U_it sa)) (sa_jcU sa (sa_U_it sa + 1))
             (\<lambda>j sh. sh\<lparr>sh_prU := (sh_prU sh)
                           (j := real_of_int (sh_uu sh (sa_u sa + sa_irU sa j)))\<rparr>)
             sh)"
  by (subst store_U_sparse.simps) simp

















section \<open>The rounds of the main loop\<close>

subsection \<open>The scheduled events of a round\<close>




subsection \<open>Negative compartments\<close>




end
